theory Spec2Isabelle
  imports Complex_Main "HOL-Library.AList" "HOL-Library.Option_ord"
begin

section \<open>Shared conventions\<close>

text \<open>
  The development embeds the evolutionary core of \<^verbatim>\<open>NEATNNG.py\<close>. Python dictionaries keep
  their insertion order and several functions iterate over them, so a dictionary is an
  association list with distinct keys: \<^const>\<open>AList.update\<close> overwrites in place or appends,
  as \<^verbatim>\<open>d[k] = v\<close> does. Node ids, innovation numbers and counters are the non-negative
  integers the counters of the program produce (\<^typ>\<open>nat\<close>). Weights, biases and fitness
  values are Python floats; they are modelled as \<^typ>\<open>real\<close>, so rounding is not part of the
  model. Every draw from \<^verbatim>\<open>random\<close> is an explicit argument.
\<close>

datatype py_error = ValueError | IndexError | KeyError | TypeError

text \<open>\<^verbatim>\<open>random.choice(seq)\<close>: some element of a non-empty sequence, \<^verbatim>\<open>IndexError\<close> on an empty
  one. The draw is the natural number \<open>r\<close>.\<close>

definition random_choice :: "nat \<Rightarrow> 'a list \<Rightarrow> py_error + 'a" where
  "random_choice r xs = (if xs = [] then Inl IndexError else Inr (xs ! (r mod length xs)))"

text \<open>\<^verbatim>\<open>d[k]\<close> on a dictionary: the value, or \<^verbatim>\<open>KeyError\<close>.\<close>

definition dict_get :: "('k \<times> 'v) list \<Rightarrow> 'k \<Rightarrow> py_error + 'v" where
  "dict_get d k = (case map_of d k of None \<Rightarrow> Inl KeyError | Some v \<Rightarrow> Inr v)"

text \<open>A \<^verbatim>\<open>for\<close> loop whose body may raise: the first error ends the loop.\<close>

fun for_each :: "('a \<Rightarrow> 's \<Rightarrow> py_error + 's) \<Rightarrow> 'a list \<Rightarrow> 's \<Rightarrow> py_error + 's" where
  "for_each f [] s = Inr s"
| "for_each f (x # xs) s = (case f x s of Inl e \<Rightarrow> Inl e | Inr s' \<Rightarrow> for_each f xs s')"

section \<open>InnovationManager\<close>

type_synonym innovation_key = "string \<times> nat \<times> nat option"

record InnovationManager =
  innovations :: "innovation_key \<rightharpoonup> nat"
  next_innovation_number :: nat
  next_genome_id_counter :: nat

definition new_InnovationManager :: InnovationManager where
  "new_InnovationManager =
     \<lparr>innovations = Map.empty, next_innovation_number = 1, next_genome_id_counter = 0\<rparr>"

definition get_innovation_number ::
  "InnovationManager \<Rightarrow> string \<Rightarrow> nat \<Rightarrow> nat option \<Rightarrow> nat option" where
  "get_innovation_number im innovation_type gene_in_id gene_out_id =
     innovations im (innovation_type, gene_in_id, gene_out_id)"

text \<open>\<^verbatim>\<open>create_innovation\<close> returns the number and the updated manager. The last argument is
  the optional explicit \<^verbatim>\<open>innovation_number\<close>.\<close>

definition create_innovation ::
  "InnovationManager \<Rightarrow> string \<Rightarrow> nat \<Rightarrow> nat option \<Rightarrow> nat option \<Rightarrow> nat \<times> InnovationManager" where
  "create_innovation im innovation_type gene_in_id gene_out_id innovation_number =
     (case innovation_number of
        None \<Rightarrow>
          (next_innovation_number im,
           im\<lparr>innovations :=
                 (innovations im)((innovation_type, gene_in_id, gene_out_id) \<mapsto> next_innovation_number im),
              next_innovation_number := next_innovation_number im + 1\<rparr>)
      | Some n \<Rightarrow>
          (n, im\<lparr>innovations := (innovations im)((innovation_type, gene_in_id, gene_out_id) \<mapsto> n)\<rparr>))"

definition next_genome_id :: "InnovationManager \<Rightarrow> nat \<times> InnovationManager" where
  "next_genome_id im =
     (next_genome_id_counter im, im\<lparr>next_genome_id_counter := next_genome_id_counter im + 1\<rparr>)"

definition increment_genome_id :: "InnovationManager \<Rightarrow> InnovationManager" where
  "increment_genome_id im = im\<lparr>next_genome_id_counter := next_genome_id_counter im + 1\<rparr>"

section \<open>FeedforwardGenome\<close>

datatype node_type = Input | Hidden | Output

datatype activation = Identity | Relu | Sigmoid | Tanh

text \<open>A gene is the tuple \<^verbatim>\<open>(type, activation, innovation_number[, bias])\<close>; the constructor
  stores input genes as 3-tuples, which is the bias \<^const>\<open>None\<close>.\<close>

type_synonym gene_info = "node_type \<times> activation \<times> nat \<times> real option"

type_synonym connection_key = "nat \<times> nat \<times> nat"

record FeedforwardGenome =
  genome_id :: nat
  genes :: "(nat \<times> gene_info) list"
  connections :: "(connection_key \<times> real) list"
  next_node_id :: nat
  fitness :: "real option"
  output_nodes :: "nat list"

definition gene_type :: "gene_info \<Rightarrow> node_type" where
  "gene_type gi = fst gi"

definition gene_activation :: "gene_info \<Rightarrow> activation" where
  "gene_activation gi = fst (snd gi)"

definition gene_innovation :: "gene_info \<Rightarrow> nat" where
  "gene_innovation gi = fst (snd (snd gi))"

definition gene_bias :: "gene_info \<Rightarrow> real option" where
  "gene_bias gi = snd (snd (snd gi))"

definition get_num_inputs :: "FeedforwardGenome \<Rightarrow> nat" where
  "get_num_inputs g = length (filter (\<lambda>(node_id, gi). gene_type gi = Input) (genes g))"

definition get_num_outputs :: "FeedforwardGenome \<Rightarrow> nat" where
  "get_num_outputs g = length (output_nodes g)"

definition get_num_hidden_nodes :: "FeedforwardGenome \<Rightarrow> nat" where
  "get_num_hidden_nodes g = length (filter (\<lambda>(node_id, gi). gene_type gi = Hidden) (genes g))"

subsection \<open>The constructor\<close>

text \<open>\<^verbatim>\<open>random.choice(['relu', 'sigmoid', 'tanh'])\<close> with the draw \<open>r\<close>.\<close>

definition choose_activation :: "nat \<Rightarrow> activation" where
  "choose_activation r = [Relu, Sigmoid, Tanh] ! (r mod 3)"

text \<open>The draws of one constructor call, indexed by the loop iteration that makes them.\<close>

record init_draws =
  hidden_activation :: "nat \<Rightarrow> nat"
  hidden_bias :: "nat \<Rightarrow> real"
  output_bias :: "nat \<Rightarrow> real"
  target_choice :: "nat \<Rightarrow> nat"
  initial_weight :: "nat \<Rightarrow> real"

type_synonym build_state = "FeedforwardGenome \<times> InnovationManager"

definition init_input_node :: "build_state \<Rightarrow> build_state" where
  "init_input_node = (\<lambda>(g, im).
     let (innovation_number, im') = create_innovation im ''gene'' (next_node_id g) None None
     in (g\<lparr>genes := AList.update (next_node_id g) (Input, Identity, innovation_number, None) (genes g),
           next_node_id := next_node_id g + 1\<rparr>, im'))"

definition init_hidden_node :: "init_draws \<Rightarrow> nat \<Rightarrow> build_state \<Rightarrow> build_state" where
  "init_hidden_node d j = (\<lambda>(g, im).
     let (innovation_number, im') = create_innovation im ''gene'' (next_node_id g) None None
     in (g\<lparr>genes := AList.update (next_node_id g)
                      (Hidden, choose_activation (hidden_activation d j), innovation_number,
                       Some (hidden_bias d j)) (genes g),
           next_node_id := next_node_id g + 1\<rparr>, im'))"

definition init_output_node :: "init_draws \<Rightarrow> nat \<Rightarrow> build_state \<Rightarrow> build_state" where
  "init_output_node d j = (\<lambda>(g, im).
     let (innovation_number, im') = create_innovation im ''gene'' (next_node_id g) None None
     in (g\<lparr>genes := AList.update (next_node_id g)
                      (Output, Identity, innovation_number, Some (output_bias d j)) (genes g),
           output_nodes := output_nodes g @ [next_node_id g],
           next_node_id := next_node_id g + 1\<rparr>, im'))"

definition init_connection :: "init_draws \<Rightarrow> nat \<Rightarrow> build_state \<Rightarrow> py_error + build_state" where
  "init_connection d i = (\<lambda>(g, im).
     case random_choice (target_choice d i) (map fst (genes g)) of
       Inl e \<Rightarrow> Inl e
     | Inr out_node \<Rightarrow>
        (case dict_get (genes g) i of
           Inl e \<Rightarrow> Inl e
         | Inr gene_i \<Rightarrow>
            if gene_type gene_i = Output then Inr (g, im)
            else (case dict_get (genes g) out_node of
                    Inl e \<Rightarrow> Inl e
                  | Inr gene_out \<Rightarrow>
                     if gene_type gene_out \<noteq> Input \<and> i \<noteq> out_node then
                       (let (innovation_number, im') =
                              create_innovation im ''connection'' i (Some out_node) None
                        in Inr (g\<lparr>connections :=
                                      AList.update (i, out_node, innovation_number) (initial_weight d i)
                                        (connections g)\<rparr>, im'))
                     else Inr (g, im))))"

definition new_FeedforwardGenome ::
  "nat \<Rightarrow> nat \<Rightarrow> nat \<Rightarrow> InnovationManager \<Rightarrow> nat \<Rightarrow> init_draws \<Rightarrow> py_error + build_state" where
  "new_FeedforwardGenome gid num_inputs num_outputs innovation_manager initial_hidden_nodes d =
     (let s0 = (\<lparr>genome_id = gid, genes = [], connections = [], next_node_id = 0,
                  fitness = None, output_nodes = []\<rparr>, innovation_manager);
          s1 = fold (\<lambda>_. init_input_node) [0..<num_inputs] s0;
          s2 = fold (init_hidden_node d) [0..<initial_hidden_nodes] s1;
          s3 = fold (init_output_node d) [0..<num_outputs] s2
      in for_each (init_connection d) [0..<num_inputs + initial_hidden_nodes] s3)"

subsection \<open>Raw insertion\<close>

text \<open>\<^verbatim>\<open>add_node\<close> stores the gene under the current \<^verbatim>\<open>next_node_id\<close>, advances the counter
  and returns the id it used; \<open>drawn_bias\<close> is the value of \<^verbatim>\<open>random.uniform(-1, 1)\<close>.\<close>

definition add_node ::
  "FeedforwardGenome \<Rightarrow> node_type \<Rightarrow> activation \<Rightarrow> nat option \<Rightarrow> real
     \<Rightarrow> py_error + (nat \<times> FeedforwardGenome)" where
  "add_node g new_type act innovation_number drawn_bias =
     (case innovation_number of
        None \<Rightarrow> Inl ValueError
      | Some n \<Rightarrow>
          (let initial_bias = (if new_type \<noteq> Input then drawn_bias else 0)
           in Inr (next_node_id g,
                   g\<lparr>genes := AList.update (next_node_id g) (new_type, act, n, Some initial_bias) (genes g),
                     next_node_id := next_node_id g + 1\<rparr>)))"

text \<open>\<^verbatim>\<open>add_connection\<close>: every key of the dictionary carries a number, so a key with the
  innovation number \<^verbatim>\<open>None\<close> is never present and the call raises. \<open>drawn_weight\<close> is used
  when no weight is given.\<close>

definition add_connection ::
  "FeedforwardGenome \<Rightarrow> nat \<Rightarrow> nat \<Rightarrow> real option \<Rightarrow> nat option \<Rightarrow> real
     \<Rightarrow> py_error + (bool \<times> FeedforwardGenome)" where
  "add_connection g in_node_id out_node_id weight innovation_number drawn_weight =
     (case innovation_number of
        None \<Rightarrow> Inl ValueError
      | Some n \<Rightarrow>
          if (in_node_id, out_node_id, n) \<notin> set (map fst (connections g)) then
            Inr (True,
                 g\<lparr>connections :=
                      AList.update (in_node_id, out_node_id, n)
                        (case weight of Some w \<Rightarrow> w | None \<Rightarrow> drawn_weight) (connections g)\<rparr>)
          else Inr (False, g))"

subsection \<open>Mutation operators\<close>

record add_node_draws =
  split_choice :: nat
  new_activation :: nat
  new_bias :: real

text \<open>\<^verbatim>\<open>mutate_add_node\<close> ignores its two candidate-pool arguments, which are left out.\<close>

definition mutate_add_node ::
  "FeedforwardGenome \<Rightarrow> InnovationManager \<Rightarrow> add_node_draws \<Rightarrow> py_error + build_state" where
  "mutate_add_node g im d =
     (if connections g = [] then Inr (g, im)
      else
        case random_choice (split_choice d) (map fst (connections g)) of
          Inl e \<Rightarrow> Inl e
        | Inr connection_to_split \<Rightarrow>
           (case dict_get (connections g) connection_to_split of
              Inl e \<Rightarrow> Inl e
            | Inr weight \<Rightarrow>
               (let g1 = g\<lparr>connections := AList.delete connection_to_split (connections g)\<rparr>;
                    (in_node, out_node, original_innovation) = connection_to_split;
                    new_node_id = next_node_id g1;
                    g2 = g1\<lparr>next_node_id := next_node_id g1 + 1\<rparr>;
                    (new_node_innovation, im1) = create_innovation im ''gene'' new_node_id None None
                in case add_node g2 Hidden (choose_activation (new_activation d))
                          (Some new_node_innovation) (new_bias d) of
                     Inl e \<Rightarrow> Inl e
                   | Inr (_, g3) \<Rightarrow>
                      (let (innovation_in_to_new, im2) =
                             create_innovation im1 ''connection'' in_node (Some new_node_id) None
                       in case add_connection g3 in_node new_node_id (Some 1)
                                 (Some innovation_in_to_new) 0 of
                            Inl e \<Rightarrow> Inl e
                          | Inr (_, g4) \<Rightarrow>
                             (let (innovation_new_to_out, im3) =
                                    create_innovation im2 ''connection'' new_node_id (Some out_node) None
                              in case add_connection g4 new_node_id out_node (Some weight)
                                        (Some innovation_new_to_out) 0 of
                                   Inl e \<Rightarrow> Inl e
                                 | Inr (_, g5) \<Rightarrow> Inr (g5, im3))))))"

record add_connection_draws =
  in_choice :: nat
  out_choice :: nat
  new_weight :: real

definition mutate_add_connection ::
  "FeedforwardGenome \<Rightarrow> nat list \<Rightarrow> nat list \<Rightarrow> InnovationManager \<Rightarrow> add_connection_draws
     \<Rightarrow> py_error + build_state" where
  "mutate_add_connection g possible_in_nodes possible_out_nodes im d =
     (if possible_in_nodes \<noteq> [] \<and> possible_out_nodes \<noteq> [] then
        case random_choice (in_choice d) possible_in_nodes of
          Inl e \<Rightarrow> Inl e
        | Inr in_node \<Rightarrow>
           (case random_choice (out_choice d) possible_out_nodes of
              Inl e \<Rightarrow> Inl e
            | Inr out_node \<Rightarrow>
               (let connection_exists =
                      (\<exists>(in_n, out_n, _) \<in> set (map fst (connections g)). (in_n, out_n) = (in_node, out_node))
                in if in_node \<noteq> out_node \<and> \<not> connection_exists \<and> in_node < out_node then
                     (let (innovation_number, im') =
                            create_innovation im ''connection'' in_node (Some out_node) None
                      in case add_connection g in_node out_node None (Some innovation_number)
                                (new_weight d) of
                           Inl e \<Rightarrow> Inl e
                         | Inr (_, g') \<Rightarrow> Inr (g', im'))
                   else Inr (g, im)))
      else Inr (g, im))"

text \<open>\<^verbatim>\<open>random.shuffle\<close>: the draws pick, one after the other, the next element among those
  that are left; every permutation is the result of some draws.\<close>

fun shuffle :: "nat list \<Rightarrow> 'a list \<Rightarrow> 'a list" where
  "shuffle [] xs = xs"
| "shuffle (r # rs) xs =
     (if xs = [] then []
      else (let i = r mod length xs in xs ! i # shuffle rs (take i xs @ drop (Suc i) xs)))"

definition mutate_eliminate_node :: "FeedforwardGenome \<Rightarrow> nat list \<Rightarrow> FeedforwardGenome" where
  "mutate_eliminate_node g draws =
     (let hidden_nodes = map fst (filter (\<lambda>(node_id, info). gene_type info = Hidden) (genes g))
      in case shuffle draws hidden_nodes of
           [] \<Rightarrow> g
         | node_id # _ \<Rightarrow>
            (let connected_in = filter (\<lambda>(in_node, out_node, innov). out_node = node_id)
                                  (map fst (connections g));
                 connected_out = filter (\<lambda>(in_node, out_node, innov). in_node = node_id)
                                   (map fst (connections g))
             in g\<lparr>connections := fold AList.delete (connected_in @ connected_out) (connections g),
                  genes := AList.delete node_id (genes g)\<rparr>))"

definition prune_orphan_nodes :: "FeedforwardGenome \<Rightarrow> FeedforwardGenome" where
  "prune_orphan_nodes g =
     (let orphan_nodes =
            filter (\<lambda>node. \<not> (\<exists>(n1, n2, _) \<in> set (map fst (connections g)). n1 = node) \<and>
                            \<not> (\<exists>(n1, n2, _) \<in> set (map fst (connections g)). n2 = node))
              (map fst (genes g))
      in fold (\<lambda>orphan g'.
                 g'\<lparr>genes := AList.delete orphan (genes g'),
                    connections :=
                      filter (\<lambda>(key, v). fst key \<noteq> orphan \<and> fst (snd key) \<noteq> orphan)
                        (connections g')\<rparr>)
           orphan_nodes g)"

text \<open>The loop of \<^verbatim>\<open>mutate_eliminate_connection\<close> over the shuffled items. A reverted removal
  stores the key again, which puts it at the end of the dictionary.\<close>

fun eliminate_connection_loop ::
  "FeedforwardGenome \<Rightarrow> (connection_key \<times> real) list \<Rightarrow> py_error + FeedforwardGenome" where
  "eliminate_connection_loop g [] = Inr g"
| "eliminate_connection_loop g (((in_node, out_node, innov), _) # rest) =
     (if in_node \<notin> set (map fst (genes g)) \<or> out_node \<notin> set (map fst (genes g)) then
        eliminate_connection_loop g rest
      else
        case dict_get (connections g) (in_node, out_node, innov) of
          Inl e \<Rightarrow> Inl e
        | Inr backup_weight \<Rightarrow>
           (let remaining = AList.delete (in_node, out_node, innov) (connections g);
                in_has_other_outputs =
                  (\<exists>(n1, n2, _) \<in> set (map fst remaining). (n1 \<noteq> in_node \<or> n2 \<noteq> out_node) \<and> n1 = in_node);
                out_has_other_inputs =
                  (\<exists>(n1, n2, _) \<in> set (map fst remaining). (n1 \<noteq> in_node \<or> n2 \<noteq> out_node) \<and> n2 = out_node);
                in_is_hidden = (map_option gene_type (map_of (genes g) in_node) = Some Hidden);
                out_is_hidden = (map_option gene_type (map_of (genes g) out_node) = Some Hidden)
            in if (in_is_hidden \<and> \<not> in_has_other_outputs) \<or> (out_is_hidden \<and> \<not> out_has_other_inputs)
               then eliminate_connection_loop
                      (g\<lparr>connections := AList.update (in_node, out_node, innov) backup_weight remaining\<rparr>)
                      rest
               else Inr (prune_orphan_nodes (g\<lparr>connections := remaining\<rparr>))))"

definition mutate_eliminate_connection ::
  "FeedforwardGenome \<Rightarrow> nat list \<Rightarrow> py_error + FeedforwardGenome" where
  "mutate_eliminate_connection g draws = eliminate_connection_loop g (shuffle draws (connections g))"

record reconnect_draws =
  reconnect_target :: "nat \<Rightarrow> nat"
  reconnect_weight :: "nat \<Rightarrow> real"

text \<open>\<^verbatim>\<open>prune_disconnected_inputs\<close> computes the set of connected sources once, before its loop.
  The draws are indexed by the input node they are made for.\<close>

definition reconnect_input ::
  "nat set \<Rightarrow> reconnect_draws \<Rightarrow> nat \<Rightarrow> build_state \<Rightarrow> py_error + build_state" where
  "reconnect_input connected_sources d input_node = (\<lambda>(g, im).
     if input_node \<notin> connected_sources then
       (let targets = map fst (filter (\<lambda>(node_id, info). gene_type info = Hidden \<or> gene_type info = Output)
                                 (genes g))
        in if targets = [] then Inr (g, im)
           else
             case random_choice (reconnect_target d input_node) targets of
               Inl e \<Rightarrow> Inl e
             | Inr target \<Rightarrow>
                (let (innov, im') = create_innovation im ''connection'' input_node (Some target) None
                 in case add_connection g input_node target None (Some innov)
                           (reconnect_weight d input_node) of
                      Inl e \<Rightarrow> Inl e
                    | Inr (_, g') \<Rightarrow> Inr (g', im')))
     else Inr (g, im))"

definition prune_disconnected_inputs ::
  "FeedforwardGenome \<Rightarrow> InnovationManager \<Rightarrow> reconnect_draws \<Rightarrow> py_error + build_state" where
  "prune_disconnected_inputs g im d =
     (let input_nodes = map fst (filter (\<lambda>(node_id, info). gene_type info = Input) (genes g));
          connected_sources = set (map (\<lambda>(in_node, _, _). in_node) (map fst (connections g)))
      in for_each (reconnect_input connected_sources d) input_nodes (g, im))"

subsection \<open>Activation\<close>

text \<open>The two functions of the tensor library that \<^verbatim>\<open>activate\<close> calls, \<^verbatim>\<open>torch.exp\<close> and
  \<^verbatim>\<open>torch.tanh\<close>, are arguments of the model.\<close>

record torch =
  torch_exp :: "real \<Rightarrow> real"
  torch_tanh :: "real \<Rightarrow> real"

definition apply_activation :: "torch \<Rightarrow> activation \<Rightarrow> real \<Rightarrow> real" where
  "apply_activation lib a x =
     (case a of
        Relu \<Rightarrow> max 0 x
      | Sigmoid \<Rightarrow> 1 / (1 + torch_exp lib (- x))
      | Tanh \<Rightarrow> torch_tanh lib x
      | Identity \<Rightarrow> x)"

text \<open>The dictionary \<^verbatim>\<open>input_nodes\<close> of \<^verbatim>\<open>activate\<close>: every input node with its position among
  all the genes, which is the index read from \<^verbatim>\<open>inputs\<close>.\<close>

definition input_positions :: "FeedforwardGenome \<Rightarrow> (nat \<times> nat) list" where
  "input_positions g =
     map (\<lambda>(index, node_id, gene). (node_id, index))
       (filter (\<lambda>(index, node_id, gene). gene_type gene = Input)
          (zip [0..<length (genes g)] (genes g)))"

definition set_input_value ::
  "real list \<Rightarrow> nat \<times> nat \<Rightarrow> (nat \<rightharpoonup> real) \<Rightarrow> py_error + (nat \<rightharpoonup> real)" where
  "set_input_value inputs = (\<lambda>(node_id, input_index) node_values.
     if input_index < length inputs then Inr (node_values(node_id \<mapsto> inputs ! input_index))
     else Inl IndexError)"

definition incoming_sum ::
  "(connection_key \<times> real) list \<Rightarrow> (nat \<rightharpoonup> real) \<Rightarrow> nat \<Rightarrow> real" where
  "incoming_sum conns node_values node_id =
     fold (\<lambda>((in_node, out_node, _), weight) acc.
             case node_values in_node of
               Some v \<Rightarrow> if out_node = node_id then acc + v * weight else acc
             | None \<Rightarrow> acc)
       conns 0"

definition activate_node ::
  "torch \<Rightarrow> FeedforwardGenome \<Rightarrow> nat \<Rightarrow> (nat \<rightharpoonup> real) \<Rightarrow> (nat \<rightharpoonup> real)" where
  "activate_node lib g node_id node_values =
     (case map_of (genes g) node_id of
        None \<Rightarrow> node_values
      | Some gene \<Rightarrow>
          if gene_type gene \<noteq> Input then
            (let bias = (case gene_bias gene of Some b \<Rightarrow> b | None \<Rightarrow> 0)
             in node_values(node_id \<mapsto>
                  apply_activation lib (gene_activation gene)
                    (incoming_sum (connections g) node_values node_id + bias)))
          else node_values)"

definition activate :: "torch \<Rightarrow> FeedforwardGenome \<Rightarrow> real list \<Rightarrow> py_error + real list" where
  "activate lib g inputs =
     (if length inputs \<noteq> get_num_inputs g then Inl ValueError
      else
        case for_each (set_input_value inputs) (input_positions g) Map.empty of
          Inl e \<Rightarrow> Inl e
        | Inr node_values0 \<Rightarrow>
           (let sorted_nodes = sort (map fst (genes g));
                node_values = fold (activate_node lib g) sorted_nodes node_values0
            in Inr (map (\<lambda>node_id. case node_values node_id of Some v \<Rightarrow> v | None \<Rightarrow> 0)
                      (output_nodes g))))"

subsection \<open>Copy\<close>

definition copy :: "FeedforwardGenome \<Rightarrow> InnovationManager \<Rightarrow> init_draws \<Rightarrow> py_error + build_state" where
  "copy g im d =
     (case new_FeedforwardGenome (genome_id g) (get_num_inputs g) (get_num_outputs g) im 0 d of
        Inl e \<Rightarrow> Inl e
      | Inr (new_genome, im') \<Rightarrow>
          Inr (new_genome\<lparr>genes := genes g, connections := connections g,
                          next_node_id := next_node_id g, fitness := fitness g,
                          output_nodes := output_nodes g\<rparr>, im'))"

section \<open>Population: creating a genome\<close>

definition create_initial_genome_population ::
  "InnovationManager \<Rightarrow> nat \<Rightarrow> nat \<Rightarrow> nat \<Rightarrow> init_draws \<Rightarrow> py_error + build_state" where
  "create_initial_genome_population im num_inputs num_outputs initial_hidden_nodes d =
     (let (gid, im1) = next_genome_id im
      in case new_FeedforwardGenome gid num_inputs num_outputs im1 initial_hidden_nodes d of
           Inl e \<Rightarrow> Inl e
         | Inr (genome, im2) \<Rightarrow> Inr (genome, increment_genome_id im2))"

section \<open>Species: compatibility distance\<close>

definition max_innovation :: "nat list \<Rightarrow> nat" where
  "max_innovation xs = (if xs = [] then 0 else Max (set xs))"

text \<open>One pass of the loop over gene innovation numbers; the state is \<open>(excess, disjoint)\<close>.\<close>

definition count_gene ::
  "nat list \<Rightarrow> nat list \<Rightarrow> nat \<Rightarrow> nat \<times> nat \<Rightarrow> nat \<times> nat" where
  "count_gene innovation_numbers1 innovation_numbers2 innovation_number = (\<lambda>(excess, disjoint).
     let in1 = (innovation_number \<in> set innovation_numbers1);
         in2 = (innovation_number \<in> set innovation_numbers2)
     in if in1 \<and> in2 then (excess, disjoint)
        else if in1 \<or> in2 then
          (if innovation_number > min (max_innovation innovation_numbers1) (max_innovation innovation_numbers2)
           then (excess + 1, disjoint)
           else (excess, disjoint + 1))
        else (excess, disjoint))"

text \<open>One pass of the loop over connection innovation numbers; the state is
  \<open>(excess, disjoint, total_weight_diff, matching_connections)\<close>.\<close>

definition count_connection ::
  "(connection_key \<times> real) list \<Rightarrow> (connection_key \<times> real) list \<Rightarrow> nat
     \<Rightarrow> nat \<times> nat \<times> real \<times> nat \<Rightarrow> nat \<times> nat \<times> real \<times> nat" where
  "count_connection connections1 connections2 innovation_number =
     (\<lambda>(excess, disjoint, total_weight_diff, matching_connections).
        let conn1_list = filter (\<lambda>(a, b, n). n = innovation_number) (map fst connections1);
            conn2_list = filter (\<lambda>(a, b, n). n = innovation_number) (map fst connections2);
            max1 = max_innovation (map (\<lambda>(a, b, n). n) (map fst connections1));
            max2 = max_innovation (map (\<lambda>(a, b, n). n) (map fst connections2))
        in case (conn1_list, conn2_list) of
             (conn1_key # _, conn2_key # _) \<Rightarrow>
               (case (map_of connections1 conn1_key, map_of connections2 conn2_key) of
                  (Some w1, Some w2) \<Rightarrow>
                    (excess, disjoint, total_weight_diff + \<bar>w1 - w2\<bar>, matching_connections + 1)
                | _ \<Rightarrow> (excess, disjoint, total_weight_diff, matching_connections))
           | ([], []) \<Rightarrow> (excess, disjoint, total_weight_diff, matching_connections)
           | _ \<Rightarrow>
               if innovation_number > min max1 max2
               then (excess + 1, disjoint, total_weight_diff, matching_connections)
               else (excess, disjoint + 1, total_weight_diff, matching_connections))"

text \<open>The values of the local variables \<open>(excess, disjoint, total_weight_diff,
  matching_connections)\<close> when both loops are done.\<close>

definition compatibility_counts ::
  "FeedforwardGenome \<Rightarrow> FeedforwardGenome \<Rightarrow> nat \<times> nat \<times> real \<times> nat" where
  "compatibility_counts representative_genome genome =
     (let genes1 = genes representative_genome;
          genes2 = genes genome;
          connections1 = connections representative_genome;
          connections2 = connections genome;
          innovation_numbers1_genes = map (\<lambda>(node_id, gene). gene_innovation gene) genes1;
          innovation_numbers2_genes = map (\<lambda>(node_id, gene). gene_innovation gene) genes2;
          max_innovation_genes =
            max (max_innovation innovation_numbers1_genes) (max_innovation innovation_numbers2_genes);
          (excess, disjoint) =
            fold (count_gene innovation_numbers1_genes innovation_numbers2_genes)
              [1..<max_innovation_genes + 1] (0, 0);
          max_innovation_conn =
            max (max_innovation (map (\<lambda>(a, b, n). n) (map fst connections1)))
                (max_innovation (map (\<lambda>(a, b, n). n) (map fst connections2)))
      in fold (count_connection connections1 connections2) [1..<max_innovation_conn + 1]
           (excess, disjoint, 0, 0))"

text \<open>The returned distance reads the variable \<^verbatim>\<open>weight_diff\<close>, which is set to 0 at the start
  and never assigned again; the loop accumulates into \<^verbatim>\<open>total_weight_diff\<close>.\<close>

definition calculate_compatibility_distance ::
  "FeedforwardGenome \<Rightarrow> FeedforwardGenome \<Rightarrow> real \<Rightarrow> real \<Rightarrow> real \<Rightarrow> real" where
  "calculate_compatibility_distance representative_genome genome c1 c2 c3 =
     (let weight_diff = (0::real);
          (excess, disjoint, total_weight_diff, matching_connections) =
            compatibility_counts representative_genome genome;
          N0 = max (max (length (genes representative_genome)) (length (genes genome)))
                 (max (length (connections representative_genome)) (length (connections genome)));
          N = (if N0 = 0 then 1 else N0)
      in (c1 * real excess / real N) + (c2 * real disjoint / real N) + (c3 * weight_diff / real N))"

section \<open>StagnationManager\<close>

text \<open>
  Species are objects: the manager keeps references to them across generations and writes
  their \<^verbatim>\<open>historical_best_fitness\<close>. A reference is a natural number and the objects live
  in a store. Of the members of a species \<^verbatim>\<open>update\<close> reads only the fitness, so a species
  carries the fitness values of its (evaluated) members.
\<close>

record Species =
  best_fitness :: real
  historical_best_fitness :: real
  member_fitness :: "real list"

type_synonym species_store = "nat \<Rightarrow> Species"

text \<open>
  \<^verbatim>\<open>SortedList(key = lambda spec: spec.best_fitness)\<close> of the library \<^verbatim>\<open>sortedcontainers\<close>:
  the items are kept in ascending order of the key computed when the item was added,
  \<^verbatim>\<open>add\<close> puts an item after the items of equal key, and \<^verbatim>\<open>in\<close> and \<^verbatim>\<open>remove\<close> look for the
  item among the stored items whose stored key equals the item's present key.
\<close>

definition sorted_list_add :: "(real \<times> nat) list \<Rightarrow> real \<Rightarrow> nat \<Rightarrow> (real \<times> nat) list" where
  "sorted_list_add sl key v =
     takeWhile (\<lambda>(k, _). k \<le> key) sl @ (key, v) # dropWhile (\<lambda>(k, _). k \<le> key) sl"

definition sorted_list_contains :: "(real \<times> nat) list \<Rightarrow> real \<Rightarrow> nat \<Rightarrow> bool" where
  "sorted_list_contains sl key v \<longleftrightarrow> (key, v) \<in> set sl"

definition sorted_list_remove :: "(real \<times> nat) list \<Rightarrow> real \<Rightarrow> nat \<Rightarrow> (real \<times> nat) list" where
  "sorted_list_remove sl key v = remove1 (key, v) sl"

record StagnationManager =
  max_stagnation :: int
  elitism :: int
  species_last_improved :: "nat \<rightharpoonup> int"
  sorted_species :: "(real \<times> nat) list"

definition new_StagnationManager :: "int \<Rightarrow> int \<Rightarrow> StagnationManager" where
  "new_StagnationManager max_stag elit =
     \<lparr>max_stagnation = max_stag, elitism = elit, species_last_improved = Map.empty,
      sorted_species = []\<rparr>"

definition get_historical_best_fitness :: "species_store \<Rightarrow> nat \<Rightarrow> real" where
  "get_historical_best_fitness store spec = historical_best_fitness (store spec)"

definition update_historical_best_fitness :: "species_store \<Rightarrow> nat \<Rightarrow> real \<Rightarrow> species_store" where
  "update_historical_best_fitness store spec fit =
     store(spec := (store spec)\<lparr>historical_best_fitness :=
                                  max (get_historical_best_fitness store spec) fit\<rparr>)"

text \<open>The first loop of \<^verbatim>\<open>update\<close>, for one species of \<^verbatim>\<open>species_list\<close>.\<close>

definition register_species :: "species_store \<Rightarrow> nat \<Rightarrow> (real \<times> nat) list \<Rightarrow> (real \<times> nat) list" where
  "register_species store spec sl =
     (let key = best_fitness (store spec)
      in if sorted_list_contains sl key spec
         then sorted_list_add (sorted_list_remove sl key spec) key spec
         else sorted_list_add sl key spec)"

type_synonym stagnation_state =
  "(nat \<rightharpoonup> int) \<times> species_store \<times> (nat \<rightharpoonup> bool) \<times> (nat \<times> bool) list"

text \<open>The second loop, for one species of \<^verbatim>\<open>self.sorted_species\<close>; the state is
  \<open>(species_last_improved, store, stagnation_status, results)\<close>.\<close>

definition examine_species :: "int \<Rightarrow> int \<Rightarrow> nat \<Rightarrow> stagnation_state \<Rightarrow> stagnation_state" where
  "examine_species max_stag generation spec = (\<lambda>(last_improved, store, stagnation_status, results).
     case last_improved spec of
       None \<Rightarrow>
         (last_improved(spec \<mapsto> generation),
          update_historical_best_fitness store spec (best_fitness (store spec)),
          stagnation_status(spec \<mapsto> False), results @ [(spec, False)])
     | Some improved_at \<Rightarrow>
         if best_fitness (store spec) > get_historical_best_fitness store spec then
           (last_improved(spec \<mapsto> generation),
            update_historical_best_fitness store spec (best_fitness (store spec)),
            stagnation_status(spec \<mapsto> False), results @ [(spec, False)])
         else if generation - improved_at \<ge> max_stag then
           (last_improved, store, stagnation_status(spec \<mapsto> True), results @ [(spec, True)])
         else
           (last_improved, store, stagnation_status(spec \<mapsto> False), results @ [(spec, False)]))"

text \<open>The sort key of the elitism step; \<^const>\<open>None\<close> is \<^verbatim>\<open>-float('inf')\<close>, below every number.\<close>

definition best_member_fitness :: "species_store \<Rightarrow> nat \<Rightarrow> real option" where
  "best_member_fitness store spec =
     (if member_fitness (store spec) = [] then None
      else Some (Max (set (member_fitness (store spec)))))"

text \<open>\<^verbatim>\<open>list.sort(key = ..., reverse = True)\<close> is stable: items of equal key keep their order.\<close>

definition sort_descending :: "('a \<Rightarrow> 'k::linorder) \<Rightarrow> 'a list \<Rightarrow> 'a list" where
  "sort_descending key xs = rev (sort_key key (rev xs))"

definition update ::
  "StagnationManager \<Rightarrow> species_store \<Rightarrow> nat list \<Rightarrow> int
     \<Rightarrow> StagnationManager \<times> species_store \<times> (nat \<rightharpoonup> bool)" where
  "update mgr store species_list generation =
     (let sl = fold (register_species store) species_list (sorted_species mgr);
          (last_improved, store', stagnation_status, results) =
            fold (examine_species (max_stagnation mgr) generation) (map snd sl)
              (species_last_improved mgr, store, Map.empty, []);
          ranked = sort_descending (\<lambda>(spec, flag). best_member_fitness store' spec) results;
          protected = map fst (take (nat (min (elitism mgr) (int (length ranked)))) ranked)
      in (mgr\<lparr>species_last_improved := last_improved, sorted_species := sl\<rparr>, store',
          fold (\<lambda>spec status. status(spec \<mapsto> False)) protected stagnation_status))"

section \<open>Crossover\<close>

definition find_gene :: "(nat \<times> gene_info) list \<Rightarrow> nat \<Rightarrow> (nat \<times> gene_info) option" where
  "find_gene gs innovation = List.find (\<lambda>(node_id, gene). gene_innovation gene = innovation) gs"

text \<open>A gene taken from a matching pair is rebuilt as a 4-tuple, with bias 0 when it had none.\<close>

definition with_bias :: "gene_info \<Rightarrow> gene_info" where
  "with_bias gene =
     (gene_type gene, gene_activation gene, gene_innovation gene,
      Some (case gene_bias gene of Some b \<Rightarrow> b | None \<Rightarrow> 0))"

text \<open>One pass of the gene loop. \<open>parent1_fittest\<close> is \<^verbatim>\<open>fittest_parent == parent1\<close>, and
  \<open>coin innovation\<close> is the outcome of \<^verbatim>\<open>random.random() < 0.5\<close> in that pass.\<close>

definition inherit_gene ::
  "bool \<Rightarrow> (nat \<times> gene_info) list \<Rightarrow> (nat \<times> gene_info) list \<Rightarrow> (nat \<Rightarrow> bool) \<Rightarrow> nat
     \<Rightarrow> (nat \<times> gene_info) list \<Rightarrow> (nat \<times> gene_info) list" where
  "inherit_gene parent1_fittest genes1 genes2 coin innovation child_genes =
     (case (find_gene genes1 innovation, find_gene genes2 innovation) of
        (Some (node_id1, gene1), Some (node_id2, gene2)) \<Rightarrow>
          if coin innovation then AList.update node_id1 (with_bias gene1) child_genes
          else AList.update node_id2 (with_bias gene2) child_genes
      | (Some (node_id, gene1), None) \<Rightarrow>
          if parent1_fittest then AList.update node_id gene1 child_genes else child_genes
      | (None, Some (node_id, gene2)) \<Rightarrow>
          if \<not> parent1_fittest then AList.update node_id gene2 child_genes else child_genes
      | (None, None) \<Rightarrow> child_genes)"

definition find_connection ::
  "(connection_key \<times> real) list \<Rightarrow> nat \<Rightarrow> (connection_key \<times> real) option" where
  "find_connection conns innovation = List.find (\<lambda>((in_node, out_node, innov), weight). innov = innovation) conns"

definition inherit_connection ::
  "bool \<Rightarrow> (connection_key \<times> real) list \<Rightarrow> (connection_key \<times> real) list \<Rightarrow> (nat \<Rightarrow> bool) \<Rightarrow> nat
     \<Rightarrow> (connection_key \<times> real) list \<Rightarrow> (connection_key \<times> real) list" where
  "inherit_connection parent1_fittest connections1 connections2 coin innovation child_connections =
     (case (find_connection connections1 innovation, find_connection connections2 innovation) of
        (Some conn1, Some conn2) \<Rightarrow>
          (let (chosen_conn, weight) = (if coin innovation then conn1 else conn2)
           in AList.update (fst chosen_conn, fst (snd chosen_conn), innovation) weight child_connections)
      | (Some conn1, None) \<Rightarrow>
          if parent1_fittest then AList.update (fst conn1) (snd conn1) child_connections
          else child_connections
      | (None, Some conn2) \<Rightarrow>
          if \<not> parent1_fittest then AList.update (fst conn2) (snd conn2) child_connections
          else child_connections
      | (None, None) \<Rightarrow> child_connections)"

definition crossover_genes ::
  "bool \<Rightarrow> (nat \<times> gene_info) list \<Rightarrow> (nat \<times> gene_info) list \<Rightarrow> (nat \<Rightarrow> bool)
     \<Rightarrow> (nat \<times> gene_info) list" where
  "crossover_genes parent1_fittest genes1 genes2 coin =
     (let all_gene_innovations =
            map (\<lambda>(node_id, gene). gene_innovation gene) genes1 @
            map (\<lambda>(node_id, gene). gene_innovation gene) genes2
      in fold (inherit_gene parent1_fittest genes1 genes2 coin)
           (sort (remdups all_gene_innovations)) [])"

definition crossover_connections ::
  "bool \<Rightarrow> (connection_key \<times> real) list \<Rightarrow> (connection_key \<times> real) list \<Rightarrow> (nat \<Rightarrow> bool)
     \<Rightarrow> (connection_key \<times> real) list" where
  "crossover_connections parent1_fittest connections1 connections2 coin =
     (let all_connection_innovations =
            map (\<lambda>((in_node, out_node, innov), weight). innov) connections1 @
            map (\<lambda>((in_node, out_node, innov), weight). innov) connections2
      in fold (inherit_connection parent1_fittest connections1 connections2 coin)
           (sort (remdups all_connection_innovations)) [])"

text \<open>Comparing the fitness of a genome that was never evaluated raises \<^verbatim>\<open>TypeError\<close>. The
  child is built by the constructor with its default of 8 hidden nodes, and its genes and
  connections are then replaced.\<close>

definition crossover ::
  "FeedforwardGenome \<Rightarrow> FeedforwardGenome \<Rightarrow> InnovationManager \<Rightarrow> init_draws
     \<Rightarrow> (nat \<Rightarrow> bool) \<Rightarrow> (nat \<Rightarrow> bool) \<Rightarrow> py_error + build_state" where
  "crossover parent1 parent2 innovation_manager d gene_coin connection_coin =
     (case (fitness parent1, fitness parent2) of
        (Some fitness1, Some fitness2) \<Rightarrow>
          (let parent1_fittest = (fitness1 > fitness2);
               (gid, im1) = next_genome_id innovation_manager
           in case new_FeedforwardGenome gid
                     (length (filter (\<lambda>(node_id, gene). gene_type gene = Input) (genes parent1)))
                     (length (filter (\<lambda>(node_id, gene). gene_type gene = Output) (genes parent1)))
                     im1 8 d of
                Inl e \<Rightarrow> Inl e
              | Inr (child, im2) \<Rightarrow>
                 (let im3 = increment_genome_id im2;
                      child_genes = crossover_genes parent1_fittest (genes parent1) (genes parent2) gene_coin;
                      child_connections =
                        crossover_connections parent1_fittest (connections parent1)
                          (connections parent2) connection_coin
                  in Inr (child\<lparr>genes := child_genes, connections := child_connections,
                                next_node_id :=
                                  (if child_genes \<noteq> [] then Max (set (map fst child_genes)) + 1 else 0)\<rparr>,
                          im3)))
      | _ \<Rightarrow> Inl TypeError)"

section \<open>Auxiliary notions and example inputs\<close>

text \<open>While the constructor runs, the node ids of the genome are \<open>0, \<dots>, next_node_id - 1\<close>, in
  this order.\<close>

definition well_numbered :: "FeedforwardGenome \<Rightarrow> bool" where
  "well_numbered g \<longleftrightarrow> map fst (genes g) = [0..<next_node_id g]"

text \<open>What one pass of a gene-creating loop of the constructor does to such a genome and to the
  manager.\<close>

definition gene_step :: "(build_state \<Rightarrow> build_state) \<Rightarrow> bool" where
  "gene_step f \<longleftrightarrow> (\<forall>g im. well_numbered g \<longrightarrow>
      well_numbered (fst (f (g, im))) \<and>
      next_node_id (fst (f (g, im))) = Suc (next_node_id g) \<and>
      genome_id (fst (f (g, im))) = genome_id g \<and>
      next_innovation_number (snd (f (g, im))) = Suc (next_innovation_number im) \<and>
      next_genome_id_counter (snd (f (g, im))) = next_genome_id_counter im \<and>
      innovations (snd (f (g, im))) =
        (innovations im)((''gene'', next_node_id g, None) \<mapsto> next_innovation_number im))"

text \<open>The genome and the manager of a result that is not an error.\<close>

definition genome_of :: "py_error + build_state \<Rightarrow> FeedforwardGenome option" where
  "genome_of r = (case r of Inl e \<Rightarrow> None | Inr (g, im) \<Rightarrow> Some g)"

definition manager_of :: "py_error + build_state \<Rightarrow> InnovationManager option" where
  "manager_of r = (case r of Inl e \<Rightarrow> None | Inr (g, im) \<Rightarrow> Some im)"

text \<open>Concrete draws, genomes and a manager for the evaluations below. \<open>example_chain\<close> is a
  genome the constructor builds for one input, two hidden and one output node when its
  draws connect 0 to 1, 1 to 2 and 2 to 3.\<close>

definition example_draws :: init_draws where
  "example_draws = \<lparr>hidden_activation = (\<lambda>_. 0), hidden_bias = (\<lambda>_. 0), output_bias = (\<lambda>_. 1 / 2),
     target_choice = (\<lambda>_. 1), initial_weight = (\<lambda>_. 1 / 4)\<rparr>"

definition chain_draws :: init_draws where
  "chain_draws = \<lparr>hidden_activation = (\<lambda>_. 0), hidden_bias = (\<lambda>_. 0), output_bias = (\<lambda>_. 1 / 2),
     target_choice = (\<lambda>i. i + 1), initial_weight = (\<lambda>_. 1)\<rparr>"

definition example_parent :: FeedforwardGenome where
  "example_parent =
     \<lparr>genome_id = 0,
      genes = [(0, (Input, Identity, 1, None)), (1, (Output, Identity, 2, Some (1 / 2)))],
      connections = [((0, 1, 3), 1 / 4)],
      next_node_id = 2, fitness = Some 1, output_nodes = [1]\<rparr>"

definition example_manager :: InnovationManager where
  "example_manager = \<lparr>innovations = Map.empty, next_innovation_number = 4, next_genome_id_counter = 2\<rparr>"

definition example_split :: add_node_draws where
  "example_split = \<lparr>split_choice = 0, new_activation = 0, new_bias = 1 / 8\<rparr>"

definition example_chain :: FeedforwardGenome where
  "example_chain =
     \<lparr>genome_id = 0,
      genes = [(0, (Input, Identity, 1, None)), (1, (Hidden, Relu, 2, Some 0)),
               (2, (Hidden, Relu, 3, Some 0)), (3, (Output, Identity, 4, Some (1 / 2)))],
      connections = [((0, 1, 5), 1), ((1, 2, 6), 1), ((2, 3, 7), 1)],
      next_node_id = 4, fitness = None, output_nodes = [3]\<rparr>"

definition example_reconnect :: reconnect_draws where
  "example_reconnect = \<lparr>reconnect_target = (\<lambda>_. 0), reconnect_weight = (\<lambda>_. 1 / 2)\<rparr>"

definition example_other :: FeedforwardGenome where
  "example_other = example_parent\<lparr>connections := [((0, 1, 3), 5 / 4)]\<rparr>"

text \<open>The two structural invariants of claim C2, as checks on a genome.\<close>

definition hidden_nodes_bridged :: "FeedforwardGenome \<Rightarrow> bool" where
  "hidden_nodes_bridged g =
     list_all (\<lambda>(node_id, gene).
        if gene_type gene = Hidden then
          list_ex (\<lambda>((in_node, out_node, innov), weight). out_node = node_id) (connections g) \<and>
          list_ex (\<lambda>((in_node, out_node, innov), weight). in_node = node_id) (connections g)
        else True) (genes g)"

definition connections_ordered :: "FeedforwardGenome \<Rightarrow> bool" where
  "connections_ordered g =
     list_all (\<lambda>((in_node, out_node, innov), weight). in_node < out_node) (connections g)"

text \<open>The two pruning passes, one after the other.\<close>

definition restore :: "FeedforwardGenome \<Rightarrow> InnovationManager \<Rightarrow> reconnect_draws \<Rightarrow> py_error + build_state" where
  "restore g im d = prune_disconnected_inputs (prune_orphan_nodes g) im d"

text \<open>Every input gene is among the first \<^verbatim>\<open>get_num_inputs\<close> entries of the gene dictionary, as
  in every genome the constructor builds.\<close>

definition inputs_lead :: "FeedforwardGenome \<Rightarrow> bool" where
  "inputs_lead g = list_all (\<lambda>(node_id, index). index < get_num_inputs g) (input_positions g)"

text \<open>The dictionary \<^verbatim>\<open>node_values\<close> of \<^verbatim>\<open>activate\<close> when its loops are done.\<close>

definition node_values_after :: "torch \<Rightarrow> FeedforwardGenome \<Rightarrow> real list \<Rightarrow> (nat \<rightharpoonup> real)" where
  "node_values_after lib g xs =
     fold (activate_node lib g) (sort (map fst (genes g)))
       (fold (\<lambda>(node_id, index) nv. nv(node_id \<mapsto> xs ! index)) (input_positions g) Map.empty)"

definition example_pruned :: FeedforwardGenome where
  "example_pruned = prune_orphan_nodes (mutate_eliminate_node example_chain [1])"

text \<open>A node id that no connection starts from or ends at.\<close>

definition isolated :: "FeedforwardGenome \<Rightarrow> nat \<Rightarrow> bool" where
  "isolated g node =
     (\<not> list_ex (\<lambda>((n1, n2, innov), weight). n1 = node) (connections g) \<and>
      \<not> list_ex (\<lambda>((n1, n2, innov), weight). n2 = node) (connections g))"

text \<open>The exponential and the hyperbolic tangent on the reals, for \<^verbatim>\<open>torch.exp\<close> and \<^verbatim>\<open>torch.tanh\<close>.\<close>

definition real_torch :: torch where
  "real_torch = \<lparr>torch_exp = exp, torch_tanh = tanh\<rparr>"


text \<open>The keys of each gene dictionary are distinct, and a gene innovation number that both
  parents have sits at the same node id in both.\<close>

definition aligned_parents :: "(nat \<times> gene_info) list \<Rightarrow> (nat \<times> gene_info) list \<Rightarrow> bool" where
  "aligned_parents genes1 genes2 \<longleftrightarrow>
     distinct (map fst genes1) \<and> distinct (map fst genes2) \<and>
     list_all (\<lambda>(node_id1, gene1).
        list_all (\<lambda>(node_id2, gene2).
           if gene_innovation gene1 = gene_innovation gene2 then node_id1 = node_id2 else True) genes2)
       genes1"

text \<open>The inheritance rule of crossover in the words of the specification, for one innovation
  number: the gene the child is to have, if any. \<open>parent1_fittest\<close> says that parent 1 was
  selected as fittest.\<close>

definition spec_inherited_gene ::
  "bool \<Rightarrow> (nat \<times> gene_info) list \<Rightarrow> (nat \<times> gene_info) list \<Rightarrow> (nat \<Rightarrow> bool) \<Rightarrow> nat
     \<Rightarrow> (nat \<times> gene_info) option" where
  "spec_inherited_gene parent1_fittest genes1 genes2 coin innovation =
     (case (find_gene genes1 innovation, find_gene genes2 innovation) of
        (Some (node_id1, gene1), Some (node_id2, gene2)) \<Rightarrow>
          Some (if coin innovation then (node_id1, with_bias gene1) else (node_id2, with_bias gene2))
      | (Some item1, None) \<Rightarrow> if parent1_fittest then Some item1 else None
      | (None, Some item2) \<Rightarrow> if parent1_fittest then None else Some item2
      | (None, None) \<Rightarrow> None)"

text \<open>The same rule for connection genes.\<close>

definition spec_inherited_connection ::
  "bool \<Rightarrow> (connection_key \<times> real) list \<Rightarrow> (connection_key \<times> real) list \<Rightarrow> (nat \<Rightarrow> bool) \<Rightarrow> nat
     \<Rightarrow> (connection_key \<times> real) option" where
  "spec_inherited_connection parent1_fittest connections1 connections2 coin innovation =
     (case (find_connection connections1 innovation, find_connection connections2 innovation) of
        (Some conn1, Some conn2) \<Rightarrow> Some (if coin innovation then conn1 else conn2)
      | (Some conn1, None) \<Rightarrow> if parent1_fittest then Some conn1 else None
      | (None, Some conn2) \<Rightarrow> if parent1_fittest then None else Some conn2
      | (None, None) \<Rightarrow> None)"

text \<open>The coin that always picks parent 1.\<close>

definition first_parent :: "nat \<Rightarrow> bool" where
  "first_parent innovation = True"

definition tie_parent1 :: FeedforwardGenome where
  "tie_parent1 =
     \<lparr>genome_id = 0,
      genes = [(0, (Input, Identity, 1, None)), (1, (Output, Identity, 2, Some (1 / 2))),
               (2, (Hidden, Relu, 3, Some 0))],
      connections = [((0, 1, 5), 1 / 4), ((0, 2, 6), 1), ((2, 1, 7), 1)],
      next_node_id = 3, fitness = Some 1, output_nodes = [1]\<rparr>"

definition tie_parent2 :: FeedforwardGenome where
  "tie_parent2 =
     \<lparr>genome_id = 2,
      genes = [(0, (Input, Identity, 1, None)), (1, (Output, Identity, 2, Some (1 / 4))),
               (3, (Hidden, Tanh, 4, Some 0))],
      connections = [((0, 1, 5), 3 / 4), ((0, 3, 8), 1), ((3, 1, 9), 1)],
      next_node_id = 4, fitness = Some 1, output_nodes = [1]\<rparr>"

text \<open>Two species, at generation 0 and later, and the manager after its first \<^verbatim>\<open>update\<close>.\<close>

definition species_at_start :: species_store where
  "species_at_start spec =
     (if spec = 0 then \<lparr>best_fitness = 1, historical_best_fitness = 1, member_fitness = [1]\<rparr>
      else \<lparr>best_fitness = 1, historical_best_fitness = 1, member_fitness = [1 / 2]\<rparr>)"

definition species_later :: species_store where
  "species_later spec =
     (if spec = 0 then \<lparr>best_fitness = 3, historical_best_fitness = 3, member_fitness = [3]\<rparr>
      else \<lparr>best_fitness = 1, historical_best_fitness = 1, member_fitness = [1 / 2]\<rparr>)"

definition manager_after_start :: StagnationManager where
  "manager_after_start = fst (update (new_StagnationManager 15 2) species_at_start [0, 1] 0)"

text \<open>The raw stagnation flag of a species, from the state of the manager and of the species
  before the call, and the condition under which its last-improved generation is set.\<close>

definition raw_stagnant :: "int \<Rightarrow> int \<Rightarrow> (nat \<rightharpoonup> int) \<Rightarrow> species_store \<Rightarrow> nat \<Rightarrow> bool" where
  "raw_stagnant max_stag generation last_improved store spec =
     (case last_improved spec of
        None \<Rightarrow> False
      | Some improved_at \<Rightarrow>
          \<not> best_fitness (store spec) > historical_best_fitness (store spec) \<and>
          generation - improved_at \<ge> max_stag)"

definition refreshed :: "(nat \<rightharpoonup> int) \<Rightarrow> species_store \<Rightarrow> nat \<Rightarrow> bool" where
  "refreshed last_improved store spec \<longleftrightarrow>
     last_improved spec = None \<or> best_fitness (store spec) > historical_best_fitness (store spec)"

section \<open>Properties\<close>

subsection \<open>The constructor never raises\<close>

lemma update_fresh_append:
  "k \<notin> fst ` set al \<Longrightarrow> AList.update k v al = al @ [(k, v)]"
  by (induction al) auto

lemma update_next_key:
  assumes "map fst al = [0..<n]"
  shows "map fst (AList.update n v al) = [0..<Suc n]"
proof -
  have "set (map fst al) = {0..<n}" using assms by simp
  then have "n \<notin> fst ` set al" by auto
  then show ?thesis using assms by (simp add: update_fresh_append)
qed

lemma gene_step_input: "gene_step init_input_node"
  by (auto simp: gene_step_def init_input_node_def create_innovation_def well_numbered_def
      update_next_key split: prod.splits)

lemma gene_step_hidden: "gene_step (init_hidden_node d j)"
  by (auto simp: gene_step_def init_hidden_node_def create_innovation_def well_numbered_def
      update_next_key split: prod.splits)

lemma gene_step_output: "gene_step (init_output_node d j)"
  by (auto simp: gene_step_def init_output_node_def create_innovation_def well_numbered_def
      update_next_key split: prod.splits)

lemma fold_gene_steps:
  assumes "\<And>j. gene_step (f j)" and "well_numbered (fst s)"
  shows "well_numbered (fst (fold f js s)) \<and>
         next_node_id (fst (fold f js s)) = next_node_id (fst s) + length js \<and>
         genome_id (fst (fold f js s)) = genome_id (fst s) \<and>
         next_innovation_number (snd (fold f js s)) = next_innovation_number (snd s) + length js \<and>
         next_genome_id_counter (snd (fold f js s)) = next_genome_id_counter (snd s) \<and>
         (\<forall>i. innovations (snd (fold f js s)) (''gene'', i, None) =
            (if next_node_id (fst s) \<le> i \<and> i < next_node_id (fst s) + length js
             then Some (next_innovation_number (snd s) + (i - next_node_id (fst s)))
             else innovations (snd s) (''gene'', i, None)))"
  using assms(2)
proof (induction js arbitrary: s)
  case Nil
  then show ?case by auto
next
  case (Cons j js)
  obtain g im where s: "s = (g, im)" by (cases s)
  from assms(1)[of j] Cons.prems s
  have st: "well_numbered (fst (f j s))" "next_node_id (fst (f j s)) = Suc (next_node_id g)"
    "genome_id (fst (f j s)) = genome_id g"
    "next_innovation_number (snd (f j s)) = Suc (next_innovation_number im)"
    "next_genome_id_counter (snd (f j s)) = next_genome_id_counter im"
    "innovations (snd (f j s)) =
        (innovations im)((''gene'', next_node_id g, None) \<mapsto> next_innovation_number im)"
    by (simp_all add: gene_step_def)
  from Cons.IH[OF st(1)] st s show ?case by (auto simp: Suc_diff_le)
qed

lemma init_connection_total:
  assumes "well_numbered g" and "i < next_node_id g"
  shows "\<exists>g' im'. init_connection d i (g, im) = Inr (g', im') \<and>
           genes g' = genes g \<and> next_node_id g' = next_node_id g \<and>
           genome_id g' = genome_id g \<and> output_nodes g' = output_nodes g \<and>
           fitness g' = fitness g \<and>
           next_genome_id_counter im' = next_genome_id_counter im \<and>
           next_innovation_number im \<le> next_innovation_number im' \<and>
           next_innovation_number im' \<le> Suc (next_innovation_number im) \<and>
           (\<forall>k. innovations im' (''gene'', k, None) = innovations im (''gene'', k, None))"
proof -
  let ?keys = "map fst (genes g)"
  from assms have keys: "?keys = [0..<next_node_id g]" by (simp add: well_numbered_def)
  with assms(2) have ne: "?keys \<noteq> []" by auto
  have len: "length ?keys = next_node_id g" using keys by (metis length_upt diff_zero)
  define out where "out = ?keys ! (target_choice d i mod length ?keys)"
  have out_in: "out \<in> set ?keys" unfolding out_def using ne by (simp add: len)
  have i_in: "i \<in> set ?keys" using keys assms(2) by simp
  from i_in obtain gi where gi: "map_of (genes g) i = Some gi"
    by (metis map_of_eq_None_iff not_Some_eq set_map)
  from out_in obtain go where go: "map_of (genes g) out = Some go"
    by (metis map_of_eq_None_iff not_Some_eq set_map)
  show ?thesis
    using ne gi go out_def
    by (auto simp: init_connection_def random_choice_def dict_get_def create_innovation_def
        split: prod.splits)
qed

lemma connection_loop_total:
  assumes "well_numbered g" and "\<forall>i \<in> set js. i < next_node_id g"
  shows "\<exists>g' im'. for_each (init_connection d) js (g, im) = Inr (g', im') \<and>
           genes g' = genes g \<and> next_node_id g' = next_node_id g \<and>
           genome_id g' = genome_id g \<and> output_nodes g' = output_nodes g \<and>
           fitness g' = fitness g \<and>
           next_genome_id_counter im' = next_genome_id_counter im \<and>
           next_innovation_number im \<le> next_innovation_number im' \<and>
           next_innovation_number im' \<le> next_innovation_number im + length js \<and>
           (\<forall>k. innovations im' (''gene'', k, None) = innovations im (''gene'', k, None))"
  using assms
proof (induction js arbitrary: g im)
  case Nil
  then show ?case by simp
next
  case (Cons j js)
  from Cons.prems have j: "j < next_node_id g" by simp
  from init_connection_total[OF Cons.prems(1) j, of d im]
  obtain g1 im1 where step: "init_connection d j (g, im) = Inr (g1, im1)"
    and same: "genes g1 = genes g" "next_node_id g1 = next_node_id g" "genome_id g1 = genome_id g"
      "output_nodes g1 = output_nodes g" "fitness g1 = fitness g"
      "next_genome_id_counter im1 = next_genome_id_counter im"
    and bounds: "next_innovation_number im \<le> next_innovation_number im1"
      "next_innovation_number im1 \<le> Suc (next_innovation_number im)"
    and inn: "\<forall>k. innovations im1 (''gene'', k, None) = innovations im (''gene'', k, None)"
    by blast
  have wn: "well_numbered g1" using Cons.prems(1) same by (simp add: well_numbered_def)
  have rest: "\<forall>i \<in> set js. i < next_node_id g1" using Cons.prems(2) same by simp
  from Cons.IH[OF wn rest, of im1]
  obtain g' im' where loop: "for_each (init_connection d) js (g1, im1) = Inr (g', im')"
    and same': "genes g' = genes g1" "next_node_id g' = next_node_id g1" "genome_id g' = genome_id g1"
      "output_nodes g' = output_nodes g1" "fitness g' = fitness g1"
      "next_genome_id_counter im' = next_genome_id_counter im1"
    and bounds': "next_innovation_number im1 \<le> next_innovation_number im'"
      "next_innovation_number im' \<le> next_innovation_number im1 + length js"
    and inn': "\<forall>k. innovations im' (''gene'', k, None) = innovations im1 (''gene'', k, None)"
    by blast
  show ?case using step loop same same' bounds bounds' inn inn' by simp
qed

lemma new_FeedforwardGenome_total:
  "\<exists>g' im'. new_FeedforwardGenome gid ni no im nh d = Inr (g', im') \<and>
     genome_id g' = gid \<and> next_node_id g' = ni + nh + no \<and>
     next_genome_id_counter im' = next_genome_id_counter im \<and>
     next_innovation_number im + (ni + nh + no) \<le> next_innovation_number im' \<and>
     next_innovation_number im' \<le> next_innovation_number im + (ni + nh + no) + (ni + nh) \<and>
     (\<forall>i < ni + nh + no. innovations im' (''gene'', i, None) = Some (next_innovation_number im + i))"
proof -
  define s0 where "s0 = (\<lparr>genome_id = gid, genes = [], connections = [], next_node_id = 0,
                  fitness = None, output_nodes = []\<rparr>, im)"
  define s1 where "s1 = fold (\<lambda>_. init_input_node) [0..<ni] s0"
  define s2 where "s2 = fold (init_hidden_node d) [0..<nh] s1"
  define s3 where "s3 = fold (init_output_node d) [0..<no] s2"
  have w0: "well_numbered (fst s0)" by (simp add: s0_def well_numbered_def)
  note f1 = fold_gene_steps[of "\<lambda>_. init_input_node" s0 "[0..<ni]", OF gene_step_input w0, folded s1_def]
  then have w1: "well_numbered (fst s1)" by simp
  note f2 = fold_gene_steps[of "init_hidden_node d" s1 "[0..<nh]", OF gene_step_hidden w1, folded s2_def]
  then have w2: "well_numbered (fst s2)" by simp
  note f3 = fold_gene_steps[of "init_output_node d" s2 "[0..<no]", OF gene_step_output w2, folded s3_def]
  then have w3: "well_numbered (fst s3)" by simp
  have n1: "next_node_id (fst s1) = ni" "next_innovation_number (snd s1) = next_innovation_number im + ni"
    using f1 by (simp_all add: s0_def)
  have n2: "next_node_id (fst s2) = ni + nh"
    "next_innovation_number (snd s2) = next_innovation_number im + ni + nh"
    using f2 n1 by simp_all
  have n3: "next_node_id (fst s3) = ni + nh + no"
    "next_innovation_number (snd s3) = next_innovation_number im + ni + nh + no"
    using f3 n2 by simp_all
  have gid3: "genome_id (fst s3) = gid" using f1 f2 f3 by (simp add: s0_def)
  have cnt3: "next_genome_id_counter (snd s3) = next_genome_id_counter im"
    using f1 f2 f3 by (simp add: s0_def)
  have i1: "\<forall>i. innovations (snd s1) (''gene'', i, None) =
      (if i < ni then Some (next_innovation_number im + i) else innovations im (''gene'', i, None))"
    using f1 by (simp add: s0_def)
  have i2: "\<forall>i < ni + nh. innovations (snd s2) (''gene'', i, None) = Some (next_innovation_number im + i)"
    using f2 n1 i1 by auto
  have i3: "\<forall>i < ni + nh + no. innovations (snd s3) (''gene'', i, None) = Some (next_innovation_number im + i)"
    using f3 n2 i2 by auto
  obtain g3 im3 where s3: "s3 = (g3, im3)" by (cases s3)
  have rng: "\<forall>i \<in> set [0..<ni + nh]. i < next_node_id g3" using n3 s3 by simp
  from connection_loop_total[of g3 "[0..<ni + nh]" d im3] w3 rng s3
  obtain g' im' where loop: "for_each (init_connection d) [0..<ni + nh] (g3, im3) = Inr (g', im')"
    and same: "genes g' = genes g3" "next_node_id g' = next_node_id g3" "genome_id g' = genome_id g3"
      "output_nodes g' = output_nodes g3" "fitness g' = fitness g3"
      "next_genome_id_counter im' = next_genome_id_counter im3"
    and bounds: "next_innovation_number im3 \<le> next_innovation_number im'"
      "next_innovation_number im' \<le> next_innovation_number im3 + length [0..<ni + nh]"
    and inn: "\<forall>k. innovations im' (''gene'', k, None) = innovations im3 (''gene'', k, None)"
    by auto
  have res: "new_FeedforwardGenome gid ni no im nh d = Inr (g', im')"
    using loop s3 by (simp add: new_FeedforwardGenome_def Let_def s0_def s1_def s2_def s3_def)
  show ?thesis
    using res same bounds inn n3 gid3 cnt3 i3 s3 by auto
qed

subsection \<open>Innovation numbers\<close>

text \<open>
  Claim C1, as the program has it. A call of \<^verbatim>\<open>create_innovation\<close> without an explicit number
  returns the present value of the counter, advances the counter by one and records the
  number under the key, whether or not the key was used before. So the next call without
  an explicit number, for the same key or for another one, returns the number that is
  greater by one.
\<close>

theorem create_innovation_fresh_each_call:
  "fst (create_innovation im t a b None) = next_innovation_number im \<and>
   next_innovation_number (snd (create_innovation im t a b None)) = next_innovation_number im + 1 \<and>
   get_innovation_number (snd (create_innovation im t a b None)) t a b = Some (next_innovation_number im) \<and>
   fst (create_innovation (snd (create_innovation im t a b None)) t' a' b' None) =
     fst (create_innovation im t a b None) + 1"
  by (simp add: create_innovation_def get_innovation_number_def)

text \<open>
  Claim C1 as stated fails: on a fresh manager two calls with the identical key
  \<open>(gene, 0, None)\<close> return 1 and then 2, not the same number twice.
\<close>

theorem create_innovation_same_key_counterexample:
  "fst (create_innovation new_InnovationManager ''gene'' 0 None None) = 1 \<and>
   fst (create_innovation (snd (create_innovation new_InnovationManager ''gene'' 0 None None))
          ''gene'' 0 None None) = 2"
  by (simp add: create_innovation_def new_InnovationManager_def)

subsection \<open>Genome ids\<close>

lemma create_initial_genome_population_total:
  "\<exists>g im'. create_initial_genome_population im ni no nh d = Inr (g, im') \<and>
      genome_id g = next_genome_id_counter im \<and>
      next_genome_id_counter im' = next_genome_id_counter im + 2"
proof -
  from new_FeedforwardGenome_total[of "next_genome_id_counter im" ni no
      "im\<lparr>next_genome_id_counter := next_genome_id_counter im + 1\<rparr>" nh d]
  obtain g im2 where
    "new_FeedforwardGenome (next_genome_id_counter im) ni no
       (im\<lparr>next_genome_id_counter := next_genome_id_counter im + 1\<rparr>) nh d = Inr (g, im2)"
    "genome_id g = next_genome_id_counter im"
    "next_genome_id_counter im2 = next_genome_id_counter im + 1"
    by auto
  then show ?thesis
    by (simp add: create_initial_genome_population_def next_genome_id_def increment_genome_id_def)
qed

lemma crossover_total:
  assumes "fitness p1 = Some f1" and "fitness p2 = Some f2"
  shows "\<exists>child im'. crossover p1 p2 im d gc cc = Inr (child, im') \<and>
      genome_id child = next_genome_id_counter im \<and>
      next_genome_id_counter im' = next_genome_id_counter im + 2 \<and>
      genes child = crossover_genes (f1 > f2) (genes p1) (genes p2) gc \<and>
      connections child = crossover_connections (f1 > f2) (connections p1) (connections p2) cc \<and>
      next_node_id child = (if genes child \<noteq> [] then Max (set (map fst (genes child))) + 1 else 0)"
proof -
  let ?ni = "length (filter (\<lambda>(node_id, gene). gene_type gene = Input) (genes p1))"
  let ?no = "length (filter (\<lambda>(node_id, gene). gene_type gene = Output) (genes p1))"
  from new_FeedforwardGenome_total[of "next_genome_id_counter im" ?ni ?no
      "im\<lparr>next_genome_id_counter := next_genome_id_counter im + 1\<rparr>" 8 d]
  obtain g im2 where
    "new_FeedforwardGenome (next_genome_id_counter im) ?ni ?no
       (im\<lparr>next_genome_id_counter := next_genome_id_counter im + 1\<rparr>) 8 d = Inr (g, im2)"
    "genome_id g = next_genome_id_counter im"
    "next_genome_id_counter im2 = next_genome_id_counter im + 1"
    by auto
  then show ?thesis using assms
    by (simp add: crossover_def next_genome_id_def increment_genome_id_def Let_def)
qed

text \<open>
  Claim C5. Both construction paths succeed (crossover for parents with a fitness) and
  give the new genome the present value of the genome-id counter, but they leave the
  counter greater by two, not by one: \<^verbatim>\<open>next_genome_id\<close> returns the counter and advances it,
  and the caller then calls \<^verbatim>\<open>increment_genome_id\<close> as well.
\<close>

theorem genome_construction_advances_counter_by_two:
  "(\<exists>g im'. create_initial_genome_population im ni no nh d = Inr (g, im') \<and>
      genome_id g = next_genome_id_counter im \<and>
      next_genome_id_counter im' = next_genome_id_counter im + 2) \<and>
   (fitness p1 \<noteq> None \<and> fitness p2 \<noteq> None \<longrightarrow>
     (\<exists>child im'. crossover p1 p2 im d gc cc = Inr (child, im') \<and>
        genome_id child = next_genome_id_counter im \<and>
        next_genome_id_counter im' = next_genome_id_counter im + 2))"
proof (intro conjI impI)
  show "\<exists>g im'. create_initial_genome_population im ni no nh d = Inr (g, im') \<and>
      genome_id g = next_genome_id_counter im \<and>
      next_genome_id_counter im' = next_genome_id_counter im + 2"
    by (rule create_initial_genome_population_total)
next
  assume "fitness p1 \<noteq> None \<and> fitness p2 \<noteq> None"
  then obtain f1 f2 where "fitness p1 = Some f1" "fitness p2 = Some f2" by auto
  from crossover_total[OF this, of im d gc cc]
  show "\<exists>child im'. crossover p1 p2 im d gc cc = Inr (child, im') \<and>
        genome_id child = next_genome_id_counter im \<and>
        next_genome_id_counter im' = next_genome_id_counter im + 2"
    by blast
qed

theorem genome_construction_advances_counter_by_two_witness:
  "map_option next_genome_id_counter
      (manager_of (create_initial_genome_population new_InnovationManager 1 1 0 example_draws)) = Some 2 \<and>
   map_option next_genome_id_counter
      (manager_of (crossover example_parent example_parent new_InnovationManager example_draws
                     (\<lambda>_. True) (\<lambda>_. True))) = Some 2"
  using genome_construction_advances_counter_by_two[of new_InnovationManager 1 1 0 example_draws
      example_parent example_parent "\<lambda>_. True" "\<lambda>_. True"]
  by (auto simp: manager_of_def new_InnovationManager_def example_parent_def)

text \<open>
  On a fresh manager, creating one initial genome moves the genome-id counter from 0 to 2.
\<close>

lemma genome_id_counter_example:
  "next_genome_id_counter new_InnovationManager = 0 \<and>
   map_option next_genome_id_counter
      (manager_of (create_initial_genome_population new_InnovationManager 1 1 0 example_draws)) = Some 2"
  using create_initial_genome_population_total[of new_InnovationManager 1 1 0 example_draws]
  by (auto simp: manager_of_def new_InnovationManager_def)

subsection \<open>Copy\<close>

text \<open>
  Claim C9. \<^verbatim>\<open>copy\<close> always succeeds and returns a genome equal to the original in every
  field. The manager it returns has recorded a fresh innovation number for the gene key of
  each of the first \<open>inputs + outputs\<close> node ids, and its innovation counter has advanced by
  that many plus at most one connection innovation for each input node. The genome-id
  counter is unchanged. Genes and connections are values in this model, so the copy shares
  nothing with the original.
\<close>

theorem copy_equal_genome_advances_innovations:
  "\<exists>im'. copy g im d = Inr (g, im') \<and>
     next_innovation_number im + get_num_inputs g + get_num_outputs g \<le> next_innovation_number im' \<and>
     next_innovation_number im' \<le> next_innovation_number im + 2 * get_num_inputs g + get_num_outputs g \<and>
     next_genome_id_counter im' = next_genome_id_counter im \<and>
     (\<forall>i < get_num_inputs g + get_num_outputs g.
        get_innovation_number im' ''gene'' i None = Some (next_innovation_number im + i))"
proof -
  from new_FeedforwardGenome_total[of "genome_id g" "get_num_inputs g" "get_num_outputs g" im 0 d]
  obtain g' im' where built:
    "new_FeedforwardGenome (genome_id g) (get_num_inputs g) (get_num_outputs g) im 0 d = Inr (g', im')"
    and gid: "genome_id g' = genome_id g"
    and cnt: "next_genome_id_counter im' = next_genome_id_counter im"
    and lo: "next_innovation_number im + (get_num_inputs g + 0 + get_num_outputs g)
              \<le> next_innovation_number im'"
    and hi: "next_innovation_number im' \<le>
              next_innovation_number im + (get_num_inputs g + 0 + get_num_outputs g) + (get_num_inputs g + 0)"
    and inn: "\<forall>i < get_num_inputs g + 0 + get_num_outputs g.
                innovations im' (''gene'', i, None) = Some (next_innovation_number im + i)"
    by blast
  have "g'\<lparr>genes := genes g, connections := connections g, next_node_id := next_node_id g,
           fitness := fitness g, output_nodes := output_nodes g\<rparr> = g"
    using gid by (intro FeedforwardGenome.equality) simp_all
  then have "copy g im d = Inr (g, im')" using built by (simp add: copy_def)
  then show ?thesis using cnt lo hi inn by (auto simp: get_innovation_number_def)
qed

lemma copy_example_counter:
  "map_option next_innovation_number
     (manager_of (copy example_parent new_InnovationManager example_draws)) = Some 4"
  by code_simp

theorem copy_equal_genome_advances_innovations_witness:
  "genome_of (copy example_parent new_InnovationManager example_draws) = Some example_parent \<and>
   map_option next_innovation_number
     (manager_of (copy example_parent new_InnovationManager example_draws)) = Some 4"
  using copy_equal_genome_advances_innovations[of example_parent new_InnovationManager example_draws]
    copy_example_counter
  by (auto simp: genome_of_def manager_of_def)

subsection \<open>Structural mutation\<close>

text \<open>The two genomes of the examples are genomes the constructor builds on a fresh manager
  (the first one before its fitness is set).\<close>

lemma example_parent_constructed:
  "genome_of (new_FeedforwardGenome 0 1 1 new_InnovationManager 0 example_draws) =
     Some (example_parent\<lparr>fitness := None\<rparr>)"
  by code_simp

lemma example_chain_constructed:
  "genome_of (new_FeedforwardGenome 0 1 1 new_InnovationManager 2 chain_draws) = Some example_chain"
  by code_simp

text \<open>
  Claim C6, at a concrete genome: one input node 0, one output node 1, the connection
  \<open>0 \<rightarrow> 1\<close> of weight 1/4 and \<^verbatim>\<open>next_node_id = 2\<close>. \<^verbatim>\<open>mutate_add_node\<close> removes the connection
  and inserts \<open>0 \<rightarrow> 2\<close> of weight 1 and \<open>2 \<rightarrow> 1\<close> of weight 1/4, but it advances
  \<^verbatim>\<open>next_node_id\<close> itself before it calls \<^verbatim>\<open>add_node\<close>, which stores the new hidden gene under
  the advanced id: the gene is node 3, and node 2, the end point of both new connections,
  is not a gene of the genome.
\<close>

theorem mutate_add_node_example:
  "genome_of (mutate_add_node example_parent example_manager example_split) =
     Some \<lparr>genome_id = 0,
       genes = [(0, (Input, Identity, 1, None)), (1, (Output, Identity, 2, Some (1 / 2))),
                (3, (Hidden, Relu, 4, Some (1 / 8)))],
       connections = [((0, 2, 5), 1), ((2, 1, 6), 1 / 4)],
       next_node_id = 4, fitness = Some 1, output_nodes = [1]\<rparr>"
  by code_simp

text \<open>
  Claim C2, at two concrete genomes that satisfy both invariants. In the chain
  \<open>0 \<rightarrow> 1 \<rightarrow> 2 \<rightarrow> 3\<close> with hidden nodes 1 and 2, \<^verbatim>\<open>mutate_eliminate_node\<close> removes node 2 with
  its connections and both pruning passes run: hidden node 1 is left with an incoming and
  no outgoing connection. In the genome of claim C6, \<^verbatim>\<open>mutate_add_node\<close> followed by both
  pruning passes leaves the connection \<open>2 \<rightarrow> 1\<close>, whose source is greater than its target.
\<close>

theorem mutations_break_invariants:
  "hidden_nodes_bridged example_chain \<and> connections_ordered example_chain \<and>
   genome_of (restore (mutate_eliminate_node example_chain [1]) example_manager example_reconnect) =
     Some \<lparr>genome_id = 0,
       genes = [(0, (Input, Identity, 1, None)), (1, (Hidden, Relu, 2, Some 0))],
       connections = [((0, 1, 5), 1)],
       next_node_id = 4, fitness = None, output_nodes = [3]\<rparr> \<and>
   map_option hidden_nodes_bridged
     (genome_of (restore (mutate_eliminate_node example_chain [1]) example_manager example_reconnect)) =
     Some False \<and>
   connections_ordered example_parent \<and>
   map_option connections_ordered
     (case mutate_add_node example_parent example_manager example_split of
        Inl e \<Rightarrow> None
      | Inr (g, im) \<Rightarrow> genome_of (restore g im example_reconnect)) = Some False"
  by code_simp

subsection \<open>Compatibility distance\<close>

text \<open>
  Claim C3, at two genomes that differ only in the weight of their one connection
  (innovation 3, weights 1/4 and 5/4). The loop finds the matching pair and accumulates the
  difference 1, and the four counts have maximum 2, but the returned distance with
  \<open>c1 = c2 = c3 = 1\<close> is 0, not 1/2: the returned expression reads a variable that is
  still 0.
\<close>

theorem distance_ignores_weights:
  "compatibility_counts example_parent example_other = (0, 0, 1, 1) \<and>
   calculate_compatibility_distance example_parent example_other 1 1 1 = 0"
  by code_simp

subsection \<open>Activation\<close>

lemma set_inputs_result:
  "for_each (set_input_value xs) ps m =
     (if list_all (\<lambda>(node_id, index). index < length xs) ps
      then Inr (fold (\<lambda>(node_id, index) nv. nv(node_id \<mapsto> xs ! index)) ps m)
      else Inl IndexError)"
proof (induction ps arbitrary: m)
  case Nil
  then show ?case by simp
next
  case (Cons p ps)
  obtain node_id index where p: "p = (node_id, index)" by (cases p)
  show ?case
  proof (cases "index < length xs")
    case True
    have "for_each (set_input_value xs) (p # ps) m =
            for_each (set_input_value xs) ps (m(node_id \<mapsto> xs ! index))"
      using True by (simp add: p set_input_value_def)
    also have "\<dots> = (if list_all (\<lambda>(node_id, index). index < length xs) ps
      then Inr (fold (\<lambda>(node_id, index) nv. nv(node_id \<mapsto> xs ! index)) ps (m(node_id \<mapsto> xs ! index)))
      else Inl IndexError)"
      by (rule Cons.IH)
    finally show ?thesis using True by (simp add: p del: fun_upd_apply)
  next
    case False
    then show ?thesis by (simp add: p set_input_value_def)
  qed
qed

lemma set_inputs_dom:
  "n \<notin> fst ` set ps \<Longrightarrow> fold (\<lambda>(node_id, index) nv. nv(node_id \<mapsto> xs ! index)) ps m n = m n"
  by (induction ps arbitrary: m) (auto split: prod.splits)

lemma input_positions_keys: "fst ` set (input_positions g) \<subseteq> set (map fst (genes g))"
proof -
  have "\<And>p. p \<in> set (zip [0..<length (genes g)] (genes g)) \<Longrightarrow> fst (snd p) \<in> fst ` set (genes g)"
    by (metis in_set_zipE prod.collapse image_eqI)
  then show ?thesis by (auto simp: input_positions_def)
qed

lemma activate_node_other: "n \<noteq> node_id \<Longrightarrow> activate_node lib g node_id nv n = nv n"
  by (simp add: activate_node_def Let_def split: option.splits)

lemma fold_activate_untouched:
  "n \<notin> set nodes \<Longrightarrow> fold (activate_node lib g) nodes nv n = nv n"
  by (induction nodes arbitrary: nv) (auto simp: activate_node_other)



lemma activate_cases:
  "activate lib g xs =
     (if length xs \<noteq> get_num_inputs g then Inl ValueError
      else if \<not> list_all (\<lambda>(node_id, index). index < length xs) (input_positions g) then Inl IndexError
      else Inr (map (\<lambda>node_id. case node_values_after lib g xs node_id of Some v \<Rightarrow> v | None \<Rightarrow> 0)
                  (output_nodes g)))"
  unfolding activate_def set_inputs_result node_values_after_def Let_def by simp

lemma activate_Inr:
  assumes "activate lib g xs = Inr ys"
  shows "ys = map (\<lambda>node_id. case node_values_after lib g xs node_id of Some v \<Rightarrow> v | None \<Rightarrow> 0)
                (output_nodes g)"
proof (cases "length xs \<noteq> get_num_inputs g")
  case True
  then show ?thesis using assms activate_cases[of lib g xs] by simp
next
  case False
  show ?thesis
  proof (cases "list_all (\<lambda>(node_id, index). index < length xs) (input_positions g)")
    case True
    then show ?thesis using assms False activate_cases[of lib g xs] by simp
  next
    case no: False
    then show ?thesis using assms False activate_cases[of lib g xs] by simp
  qed
qed

lemma node_values_after_missing:
  assumes "n \<notin> set (map fst (genes g))"
  shows "node_values_after lib g xs n = None"
proof -
  let ?nv0 = "fold (\<lambda>(node_id, index) nv. nv(node_id \<mapsto> xs ! index)) (input_positions g) Map.empty"
  have "n \<notin> fst ` set (input_positions g)" using assms input_positions_keys by blast
  then have start: "?nv0 n = None" by (simp add: set_inputs_dom)
  have "n \<notin> set (sort (map fst (genes g)))" using assms by simp
  then have "fold (activate_node lib g) (sort (map fst (genes g))) ?nv0 n = ?nv0 n"
    by (rule fold_activate_untouched)
  also note start
  finally show ?thesis unfolding node_values_after_def .
qed






lemma prune_fold_output_nodes:
  "output_nodes (fold (\<lambda>orphan g'.
                 g'\<lparr>genes := AList.delete orphan (genes g'),
                    connections :=
                      filter (\<lambda>(key, v). fst key \<noteq> orphan \<and> fst (snd key) \<noteq> orphan)
                        (connections g')\<rparr>) os g) = output_nodes g"
  by (induction os arbitrary: g) simp_all

lemma prune_fold_keys:
  "map fst (genes (fold (\<lambda>orphan g'.
                 g'\<lparr>genes := AList.delete orphan (genes g'),
                    connections :=
                      filter (\<lambda>(key, v). fst key \<noteq> orphan \<and> fst (snd key) \<noteq> orphan)
                        (connections g')\<rparr>) os g)) = filter (\<lambda>k. k \<notin> set os) (map fst (genes g))"
proof (induction os arbitrary: g)
  case Nil
  then show ?case by simp
next
  case (Cons a os)
  have "filter (\<lambda>k. k \<notin> set os) (removeAll a (map fst (genes g))) =
        filter (\<lambda>k. k \<notin> set (a # os)) (map fst (genes g))"
    by (induction "genes g" arbitrary: g) (auto simp: removeAll_filter_not_eq intro: filter_cong)
  then show ?case using Cons.IH by (simp add: AList.delete_keys)
qed

lemma isolated_iff:
  "isolated g node \<longleftrightarrow>
     \<not> (\<exists>(n1, n2, _) \<in> set (map fst (connections g)). n1 = node) \<and>
     \<not> (\<exists>(n1, n2, _) \<in> set (map fst (connections g)). n2 = node)"
  by (force simp: isolated_def list_ex_iff)

text \<open>
  Claim C10. A list returned by \<^verbatim>\<open>activate\<close> has the length of \<^verbatim>\<open>output_nodes\<close>, and its entry
  is 0 at every position whose id is not a gene of the genome; \<^verbatim>\<open>activate\<close> does return a
  list when the number of inputs is right and the input genes come first. And
  \<^verbatim>\<open>prune_orphan_nodes\<close> brings such genomes about: it leaves \<^verbatim>\<open>output_nodes\<close> as it is and
  removes every node without connections, output nodes too, from the genes.
\<close>

theorem activate_length_after_pruning:
  "(\<forall>ys. activate lib g xs = Inr ys \<longrightarrow>
      length ys = length (output_nodes g) \<and>
      (\<forall>k < length ys. output_nodes g ! k \<notin> set (map fst (genes g)) \<longrightarrow> ys ! k = 0)) \<and>
   (length xs = get_num_inputs g \<and> inputs_lead g \<longrightarrow> (\<exists>ys. activate lib g xs = Inr ys)) \<and>
   output_nodes (prune_orphan_nodes g) = output_nodes g \<and>
   (\<forall>n. isolated g n \<longrightarrow> n \<notin> set (map fst (genes (prune_orphan_nodes g))))"
proof (intro conjI allI impI)
  fix ys assume "activate lib g xs = Inr ys"
  from activate_Inr[OF this] show "length ys = length (output_nodes g)" by simp
next
  fix ys k
  assume ok: "activate lib g xs = Inr ys" and k: "k < length ys"
    and miss: "output_nodes g ! k \<notin> set (map fst (genes g))"
  from activate_Inr[OF ok] k node_values_after_missing[OF miss, of lib xs]
  show "ys ! k = 0" by simp
next
  assume "length xs = get_num_inputs g \<and> inputs_lead g"
  then show "\<exists>ys. activate lib g xs = Inr ys"
    using activate_cases[of lib g xs] by (simp add: inputs_lead_def)
next
  show "output_nodes (prune_orphan_nodes g) = output_nodes g"
    unfolding prune_orphan_nodes_def Let_def by (rule prune_fold_output_nodes)
next
  fix n assume iso: "isolated g n"
  show "n \<notin> set (map fst (genes (prune_orphan_nodes g)))"
  proof
    assume "n \<in> set (map fst (genes (prune_orphan_nodes g)))"
    then have "n \<in> set (map fst (genes g)) \<and>
      n \<notin> set (filter (\<lambda>node. \<not> (\<exists>(n1, n2, _) \<in> set (map fst (connections g)). n1 = node) \<and>
                            \<not> (\<exists>(n1, n2, _) \<in> set (map fst (connections g)). n2 = node))
              (map fst (genes g)))"
      unfolding prune_orphan_nodes_def Let_def prune_fold_keys by simp
    with iso show False unfolding isolated_iff by simp
  qed
qed

lemma example_pruned_value:
  "example_pruned =
     \<lparr>genome_id = 0,
      genes = [(0, (Input, Identity, 1, None)), (1, (Hidden, Relu, 2, Some 0))],
      connections = [((0, 1, 5), 1)], next_node_id = 4, fitness = None, output_nodes = [3]\<rparr>"
  by code_simp

lemma example_pruned_eval: "activate real_torch example_pruned [1] = Inr [0]"
  unfolding example_pruned_value
  by (simp add: activate_def get_num_inputs_def input_positions_def
      set_input_value_def gene_type_def gene_bias_def gene_activation_def activate_node_def
      incoming_sum_def apply_activation_def Let_def)

theorem activate_length_after_pruning_witness:
  "output_nodes example_pruned = [3] \<and> map fst (genes example_pruned) = [0, 1] \<and>
   length [1 :: real] = get_num_inputs example_pruned \<and> inputs_lead example_pruned \<and>
   activate real_torch example_pruned [1] = Inr [0]"
  using activate_length_after_pruning[of real_torch example_pruned "[1]"] example_pruned_eval
  by (simp add: example_pruned_value inputs_lead_def get_num_inputs_def input_positions_def
      gene_type_def)

subsection \<open>Crossover\<close>

lemma fold_select_append:
  assumes "distinct L"
    and "\<And>i j k v k' v'. i \<in> set L \<Longrightarrow> j \<in> set L \<Longrightarrow> i \<noteq> j \<Longrightarrow>
            sel i = Some (k, v) \<Longrightarrow> sel j = Some (k', v') \<Longrightarrow> k \<noteq> k'"
    and "\<And>i k v. i \<in> set L \<Longrightarrow> sel i = Some (k, v) \<Longrightarrow> k \<notin> fst ` set acc"
  shows "fold (\<lambda>i acc. case sel i of None \<Rightarrow> acc | Some (k, v) \<Rightarrow> AList.update k v acc) L acc =
           acc @ List.map_filter sel L"
  using assms
proof (induction L arbitrary: acc)
  case Nil
  then show ?case by (simp add: List.map_filter_simps)
next
  case (Cons i L)
  show ?case
  proof (cases "sel i")
    case None
    have "fold (\<lambda>i acc. case sel i of None \<Rightarrow> acc | Some (k, v) \<Rightarrow> AList.update k v acc) L acc =
           acc @ List.map_filter sel L"
    proof (rule Cons.IH)
      show "distinct L" using Cons.prems(1) by simp
    next
      fix a b k v k' v'
      assume "a \<in> set L" "b \<in> set L" "a \<noteq> b" "sel a = Some (k, v)" "sel b = Some (k', v')"
      then show "k \<noteq> k'" using Cons.prems(2)[of a b k v k' v'] by simp
    next
      fix a k v assume "a \<in> set L" "sel a = Some (k, v)"
      then show "k \<notin> fst ` set acc" using Cons.prems(3)[of a k v] by simp
    qed
    then show ?thesis using None by (simp add: List.map_filter_simps)
  next
    case (Some kv)
    obtain k v where kv: "kv = (k, v)" by (cases kv)
    have fresh: "k \<notin> fst ` set acc" using Cons.prems(3)[of i k v] Some kv by simp
    have "fold (\<lambda>i acc. case sel i of None \<Rightarrow> acc | Some (k, v) \<Rightarrow> AList.update k v acc) L
             (acc @ [(k, v)]) = (acc @ [(k, v)]) @ List.map_filter sel L"
    proof (rule Cons.IH)
      show "distinct L" using Cons.prems(1) by simp
    next
      fix a b k v k' v'
      assume "a \<in> set L" "b \<in> set L" "a \<noteq> b" "sel a = Some (k, v)" "sel b = Some (k', v')"
      then show "k \<noteq> k'" using Cons.prems(2)[of a b k v k' v'] by simp
    next
      fix a k' v' assume a: "a \<in> set L" "sel a = Some (k', v')"
      then have "k' \<notin> fst ` set acc" using Cons.prems(3)[of a k' v'] by simp
      moreover have "a \<noteq> i" using a(1) Cons.prems(1) by auto
      then have "k' \<noteq> k" using Cons.prems(2)[of a i k' v' k v] a Some kv by simp
      ultimately show "k' \<notin> fst ` set (acc @ [(k, v)])" by auto
    qed
    then show ?thesis using Some kv fresh
      by (simp add: List.map_filter_simps update_fresh_append)
  qed
qed

lemma find_map_filter:
  assumes "\<And>j kv. sel j = Some kv \<Longrightarrow> tag kv = j"
  shows "List.find (\<lambda>kv. tag kv = i) (List.map_filter sel L) = (if i \<in> set L then sel i else None)"
proof (induction L)
  case Nil
  then show ?case by (simp add: List.map_filter_simps)
next
  case (Cons j L)
  show ?case
  proof (cases "sel j")
    case None
    then show ?thesis using Cons.IH by (auto simp: List.map_filter_simps)
  next
    case (Some kv)
    then have "tag kv = j" by (rule assms)
    then show ?thesis using Cons.IH Some by (auto simp: List.map_filter_simps)
  qed
qed

lemma find_gene_Some:
  "find_gene gs i = Some (n, e) \<Longrightarrow> (n, e) \<in> set gs \<and> gene_innovation e = i"
  unfolding find_gene_def by (auto simp: find_Some_iff in_set_conv_nth)

lemma find_gene_None: "find_gene gs i = None \<longleftrightarrow> i \<notin> set (map (\<lambda>(node_id, gene). gene_innovation gene) gs)"
  unfolding find_gene_def by (force simp: find_None_iff)

lemma find_connection_Some:
  "find_connection cs i = Some ((a, b, n), w) \<Longrightarrow> ((a, b, n), w) \<in> set cs \<and> n = i"
  unfolding find_connection_def by (auto simp: find_Some_iff in_set_conv_nth)

lemma find_connection_None:
  "find_connection cs i = None \<longleftrightarrow> i \<notin> set (map (\<lambda>((in_node, out_node, innov), weight). innov) cs)"
  unfolding find_connection_def by (force simp: find_None_iff)

lemma gene_innovation_with_bias [simp]: "gene_innovation (with_bias e) = gene_innovation e"
  by (simp add: with_bias_def gene_innovation_def)

lemma inherit_gene_select:
  "inherit_gene pf g1 g2 coin i acc =
     (case spec_inherited_gene pf g1 g2 coin i of None \<Rightarrow> acc | Some (k, v) \<Rightarrow> AList.update k v acc)"
  by (auto simp: inherit_gene_def spec_inherited_gene_def split: option.splits prod.splits)

lemma inherit_connection_select:
  "inherit_connection pf c1 c2 coin i acc =
     (case spec_inherited_connection pf c1 c2 coin i of None \<Rightarrow> acc | Some (k, v) \<Rightarrow> AList.update k v acc)"
  by (auto simp: inherit_connection_def spec_inherited_connection_def
      split: option.splits prod.splits dest: find_connection_Some)

lemma spec_inherited_gene_innovation:
  "spec_inherited_gene pf g1 g2 coin j = Some (k, e) \<Longrightarrow> gene_innovation e = j"
  by (auto simp: spec_inherited_gene_def split: option.splits prod.splits if_splits dest: find_gene_Some)

lemma spec_inherited_connection_innovation:
  "spec_inherited_connection pf c1 c2 coin j = Some ((a, b, n), w) \<Longrightarrow> n = j"
  by (auto simp: spec_inherited_connection_def split: option.splits prod.splits if_splits
      dest: find_connection_Some)

lemma crossover_connections_find:
  "find_connection (crossover_connections pf c1 c2 coin) i = spec_inherited_connection pf c1 c2 coin i"
proof -
  define L where "L = sort (remdups (map (\<lambda>((in_node, out_node, innov), weight). innov) c1 @
                                     map (\<lambda>((in_node, out_node, innov), weight). innov) c2))"
  define sel where "sel = spec_inherited_connection pf c1 c2 coin"
  have step: "inherit_connection pf c1 c2 coin =
                (\<lambda>i acc. case sel i of None \<Rightarrow> acc | Some (k, v) \<Rightarrow> AList.update k v acc)"
    by (intro ext) (simp add: inherit_connection_select sel_def)
  have dist: "distinct L" by (simp add: L_def)
  have tag: "\<And>j kv. sel j = Some kv \<Longrightarrow> (\<lambda>((a, b, n), w). n) kv = j"
    using spec_inherited_connection_innovation[of pf c1 c2 coin] unfolding sel_def by auto
  have "fold (\<lambda>i acc. case sel i of None \<Rightarrow> acc | Some (k, v) \<Rightarrow> AList.update k v acc) L [] =
          [] @ List.map_filter sel L"
  proof (rule fold_select_append[OF dist])
    fix a b k v k' v'
    assume "a \<noteq> b" "sel a = Some (k, v)" "sel b = Some (k', v')"
    then show "k \<noteq> k'" using tag[of a "(k, v)"] tag[of b "(k', v')"] by (auto split: prod.splits)
  qed simp
  then have child: "crossover_connections pf c1 c2 coin = List.map_filter sel L"
    by (simp add: crossover_connections_def step L_def)
  have "find_connection (List.map_filter sel L) i =
          List.find (\<lambda>kv. (\<lambda>((a, b, n), w). n) kv = i) (List.map_filter sel L)"
    unfolding find_connection_def by (rule arg_cong2[where f = List.find]) (auto simp: fun_eq_iff)
  also have "\<dots> = (if i \<in> set L then sel i else None)"
    by (rule find_map_filter) (rule tag)
  also have "\<dots> = sel i"
  proof (cases "i \<in> set L")
    case True then show ?thesis by simp
  next
    case False
    then have "find_connection c1 i = None" "find_connection c2 i = None"
      by (simp_all add: L_def find_connection_None)
    then show ?thesis using False by (simp add: sel_def spec_inherited_connection_def)
  qed
  finally show ?thesis by (simp add: child sel_def)
qed

lemma aligned_parentsD:
  assumes "aligned_parents g1 g2" and "(n1, e1) \<in> set g1" and "(n2, e2) \<in> set g2"
    and "gene_innovation e1 = gene_innovation e2"
  shows "n1 = n2"
  using assms unfolding aligned_parents_def list_all_iff by fastforce

lemma distinct_keys_same_entry:
  assumes "distinct (map fst gs)" and "(n, e) \<in> set gs" and "(n, e') \<in> set gs"
  shows "e = e'"
  using assms by (meson eq_key_imp_eq_value)

lemma spec_inherited_gene_key:
  assumes al: "aligned_parents g1 g2"
    and sel: "spec_inherited_gene pf g1 g2 coin i = Some (k, v)"
  shows "map_option gene_innovation (map_of (if pf then g1 else g2) k) = Some i"
proof -
  have d1: "distinct (map fst g1)" and d2: "distinct (map fst g2)"
    using al by (simp_all add: aligned_parents_def)
  show ?thesis
  proof (cases "find_gene g1 i")
    case None
    with sel have f2: "find_gene g2 i = Some (k, v)" and npf: "\<not> pf"
      by (auto simp: spec_inherited_gene_def split: option.splits if_splits)
    from find_gene_Some[OF f2] have "map_of g2 k = Some v" "gene_innovation v = i"
      using d2 by (simp_all add: map_of_is_SomeI)
    then show ?thesis using npf by simp
  next
    case s1: (Some item1)
    obtain n1 e1 where i1: "item1 = (n1, e1)" by (cases item1)
    have in1: "(n1, e1) \<in> set g1" "gene_innovation e1 = i" using find_gene_Some s1 i1 by auto
    have m1: "map_of g1 n1 = Some e1" using in1(1) d1 by (rule map_of_is_SomeI[rotated])
    show ?thesis
    proof (cases "find_gene g2 i")
      case None
      with sel s1 i1 have "k = n1" "pf"
        by (auto simp: spec_inherited_gene_def split: if_splits)
      then show ?thesis using m1 in1(2) by simp
    next
      case s2: (Some item2)
      obtain n2 e2 where i2: "item2 = (n2, e2)" by (cases item2)
      have in2: "(n2, e2) \<in> set g2" "gene_innovation e2 = i" using find_gene_Some s2 i2 by auto
      have m2: "map_of g2 n2 = Some e2" using in2(1) d2 by (rule map_of_is_SomeI[rotated])
      have same: "n1 = n2" using aligned_parentsD[OF al in1(1) in2(1)] in1(2) in2(2) by simp
      have "k = n1" using sel s1 s2 i1 i2 same
        by (auto simp: spec_inherited_gene_def split: if_splits)
      then have eq: "map_of (if pf then g1 else g2) k = Some (if pf then e1 else e2)"
        using m1 m2 same by simp
      show ?thesis unfolding eq using in1(2) in2(2) by simp
    qed
  qed
qed

lemma crossover_genes_find:
  assumes al: "aligned_parents g1 g2"
  shows "find_gene (crossover_genes pf g1 g2 coin) i = spec_inherited_gene pf g1 g2 coin i"
proof -
  define L where "L = sort (remdups (map (\<lambda>(node_id, gene). gene_innovation gene) g1 @
                                     map (\<lambda>(node_id, gene). gene_innovation gene) g2))"
  define sel where "sel = spec_inherited_gene pf g1 g2 coin"
  define gs where "gs = (if pf then g1 else g2)"
  have dk: "distinct (map fst gs)" using al by (simp add: gs_def aligned_parents_def)
  have step: "inherit_gene pf g1 g2 coin =
                (\<lambda>i acc. case sel i of None \<Rightarrow> acc | Some (k, v) \<Rightarrow> AList.update k v acc)"
    by (intro ext) (simp add: inherit_gene_select sel_def)
  have dist: "distinct L" by (simp add: L_def)
  have tag: "\<And>j kv. sel j = Some kv \<Longrightarrow> (\<lambda>(n, e). gene_innovation e) kv = j"
    using spec_inherited_gene_innovation[of pf g1 g2 coin] unfolding sel_def by auto
  have "fold (\<lambda>i acc. case sel i of None \<Rightarrow> acc | Some (k, v) \<Rightarrow> AList.update k v acc) L [] =
          [] @ List.map_filter sel L"
  proof (rule fold_select_append[OF dist])
    fix a b k v k' v'
    assume ab: "a \<noteq> b" and sa: "sel a = Some (k, v)" and sb: "sel b = Some (k', v')"
    from spec_inherited_gene_key[OF al sa[unfolded sel_def]]
    have ka: "map_option gene_innovation (map_of gs k) = Some a" unfolding gs_def .
    from spec_inherited_gene_key[OF al sb[unfolded sel_def]]
    have kb: "map_option gene_innovation (map_of gs k') = Some b" unfolding gs_def .
    show "k \<noteq> k'" using ka kb ab by auto
  qed simp
  then have child: "crossover_genes pf g1 g2 coin = List.map_filter sel L"
    by (simp add: crossover_genes_def step L_def)
  have "find_gene (List.map_filter sel L) i =
          List.find (\<lambda>kv. (\<lambda>(n, e). gene_innovation e) kv = i) (List.map_filter sel L)"
    unfolding find_gene_def by (rule arg_cong2[where f = List.find]) (auto simp: fun_eq_iff)
  also have "\<dots> = (if i \<in> set L then sel i else None)"
    by (rule find_map_filter) (rule tag)
  also have "\<dots> = sel i"
  proof (cases "i \<in> set L")
    case True then show ?thesis by simp
  next
    case False
    then have "find_gene g1 i = None" "find_gene g2 i = None"
      by (simp_all add: L_def find_gene_None)
    then show ?thesis using False by (simp add: sel_def spec_inherited_gene_def)
  qed
  finally show ?thesis by (simp add: child sel_def)
qed

text \<open>
  Claim C4, as the program has it. For parents with a fitness whose gene dictionaries place
  every shared innovation number at the same node id, \<^verbatim>\<open>crossover\<close> returns a child in which,
  for every innovation number, the gene of that number is the one the rule
  \<^const>\<open>spec_inherited_gene\<close> names and the connection of that number is the one the rule
  \<^const>\<open>spec_inherited_connection\<close> names: from the parent the coin picks when both parents
  have the number; when only one parent has it, the gene or connection of that parent if the
  parent is the one selected as fittest (parent 1 when its fitness is strictly greater,
  parent 2 otherwise, ties included) and nothing if it is not. The child's \<^verbatim>\<open>next_node_id\<close>
  is one past its greatest node id, or 0 without genes.
\<close>

theorem crossover_inherits_by_innovation:
  assumes "fitness parent1 = Some f1" and "fitness parent2 = Some f2"
    and "aligned_parents (genes parent1) (genes parent2)"
  shows "\<exists>child im'.
     crossover parent1 parent2 im d gene_coin connection_coin = Inr (child, im') \<and>
     (\<forall>i. find_gene (genes child) i =
            spec_inherited_gene (f1 > f2) (genes parent1) (genes parent2) gene_coin i) \<and>
     (\<forall>i. find_connection (connections child) i =
            spec_inherited_connection (f1 > f2) (connections parent1) (connections parent2)
              connection_coin i) \<and>
     next_node_id child = (if genes child = [] then 0 else Max (set (map fst (genes child))) + 1)"
proof -
  from crossover_total[OF assms(1,2), of im d gene_coin connection_coin]
  obtain child im' where
    res: "crossover parent1 parent2 im d gene_coin connection_coin = Inr (child, im')"
    and g: "genes child = crossover_genes (f1 > f2) (genes parent1) (genes parent2) gene_coin"
    and c: "connections child =
              crossover_connections (f1 > f2) (connections parent1) (connections parent2) connection_coin"
    and n: "next_node_id child = (if genes child \<noteq> [] then Max (set (map fst (genes child))) + 1 else 0)"
    by blast
  have "\<forall>i. find_gene (genes child) i =
            spec_inherited_gene (f1 > f2) (genes parent1) (genes parent2) gene_coin i"
    unfolding g using crossover_genes_find[OF assms(3)] by blast
  moreover have "\<forall>i. find_connection (connections child) i =
            spec_inherited_connection (f1 > f2) (connections parent1) (connections parent2)
              connection_coin i"
    unfolding c using crossover_connections_find by blast
  ultimately show ?thesis using res n by auto
qed

lemma tie_genes:
  "crossover_genes False (genes tie_parent1) (genes tie_parent2) first_parent =
     [(0, (Input, Identity, 1, Some 0)), (1, (Output, Identity, 2, Some (1 / 2))),
      (3, (Hidden, Tanh, 4, Some 0))]"
  by code_simp

lemma tie_aligned: "aligned_parents (genes tie_parent1) (genes tie_parent2)"
  by code_simp

lemma tie_child_genes:
  "map_option genes (genome_of (crossover tie_parent1 tie_parent2 new_InnovationManager example_draws
                first_parent first_parent)) =
     Some [(0, (Input, Identity, 1, Some 0)), (1, (Output, Identity, 2, Some (1 / 2))),
           (3, (Hidden, Tanh, 4, Some 0))]"
proof -
  have f: "fitness tie_parent1 = Some 1" "fitness tie_parent2 = Some 1"
    by (simp_all add: tie_parent1_def tie_parent2_def)
  from crossover_total[OF f, of new_InnovationManager example_draws first_parent first_parent]
  obtain child im' where
    "crossover tie_parent1 tie_parent2 new_InnovationManager example_draws first_parent first_parent =
       Inr (child, im')"
    "genes child = crossover_genes ((1::real) > 1) (genes tie_parent1) (genes tie_parent2) first_parent"
    by blast
  then show ?thesis using tie_genes by (simp add: genome_of_def)
qed

theorem crossover_inherits_by_innovation_witness:
  "fitness tie_parent1 = Some 1 \<and> fitness tie_parent2 = Some 1 \<and>
   aligned_parents (genes tie_parent1) (genes tie_parent2) \<and>
   map_option genes (genome_of (crossover tie_parent1 tie_parent2 new_InnovationManager example_draws
                first_parent first_parent)) =
     Some [(0, (Input, Identity, 1, Some 0)), (1, (Output, Identity, 2, Some (1 / 2))),
           (3, (Hidden, Tanh, 4, Some 0))] \<and>
   spec_inherited_gene False (genes tie_parent1) (genes tie_parent2) first_parent 4 =
     Some (3, (Hidden, Tanh, 4, Some 0))"
proof -
  have f: "fitness tie_parent1 = Some 1" "fitness tie_parent2 = Some 1"
    by (simp_all add: tie_parent1_def tie_parent2_def)
  from crossover_inherits_by_innovation[OF f tie_aligned, of new_InnovationManager example_draws
      first_parent first_parent]
  obtain child where
    "genome_of (crossover tie_parent1 tie_parent2 new_InnovationManager example_draws
                first_parent first_parent) = Some child"
    and "find_gene (genes child) 4 =
            spec_inherited_gene ((1::real) > 1) (genes tie_parent1) (genes tie_parent2) first_parent 4"
    by (auto simp: genome_of_def)
  with tie_child_genes
  have "spec_inherited_gene False (genes tie_parent1) (genes tie_parent2) first_parent 4 =
     Some (3, (Hidden, Tanh, 4, Some 0))"
    by (simp add: find_gene_def gene_innovation_def)
  then show ?thesis using f tie_aligned tie_child_genes by simp
qed

lemma tie_parents_unique_genes:
  "find_gene (genes tie_parent1) 3 = Some (2, (Hidden, Relu, 3, Some 0)) \<and>
   find_gene (genes tie_parent2) 3 = None \<and>
   find_gene (genes tie_parent1) 4 = None \<and>
   find_gene (genes tie_parent2) 4 = Some (3, (Hidden, Tanh, 4, Some 0))"
  by code_simp

text \<open>
  Claim C4 as stated fails on a tie: both parents have fitness 1, the gene of innovation 3
  is only in parent 1 and the gene of innovation 4 only in parent 2, and the child has
  the gene of innovation 4 and not the one of innovation 3, although neither parent is
  the fitter one.
\<close>

theorem crossover_tie_counterexample:
  "fitness tie_parent1 = fitness tie_parent2 \<and>
   find_gene (genes tie_parent1) 3 = Some (2, (Hidden, Relu, 3, Some 0)) \<and>
   find_gene (genes tie_parent2) 3 = None \<and>
   find_gene (genes tie_parent1) 4 = None \<and>
   find_gene (genes tie_parent2) 4 = Some (3, (Hidden, Tanh, 4, Some 0)) \<and>
   map_option genes (genome_of (crossover tie_parent1 tie_parent2 new_InnovationManager example_draws
                first_parent first_parent)) =
     Some [(0, (Input, Identity, 1, Some 0)), (1, (Output, Identity, 2, Some (1 / 2))),
           (3, (Hidden, Tanh, 4, Some 0))]"
  using tie_parents_unique_genes tie_child_genes
  by (simp add: tie_parent1_def tie_parent2_def)

subsection \<open>Stagnation\<close>

text \<open>The second loop of \<^verbatim>\<open>update\<close>, when it examines every species once.\<close>

lemma examine_species_effect:
  assumes "examine_species ms gen s (li, store, status, results) = (li', store', status', results')"
  shows "status' = status(s \<mapsto> raw_stagnant ms gen li store s)"
    and "results' = results @ [(s, raw_stagnant ms gen li store s)]"
    and "li' = (if refreshed li store s then li(s \<mapsto> gen) else li)"
    and "\<And>t. t \<noteq> s \<Longrightarrow> store' t = store t"
    and "\<And>t. member_fitness (store' t) = member_fitness (store t)"
    and "\<And>t. best_fitness (store' t) = best_fitness (store t)"
  using assms
  by (auto simp: examine_species_def raw_stagnant_def refreshed_def
      update_historical_best_fitness_def get_historical_best_fitness_def
      split: option.splits if_splits)

lemma examine_fold:
  assumes "distinct order"
    and "fold (examine_species ms gen) order (li, store, status, results) = (li', store', status', results')"
  shows "(\<forall>s \<in> set order. status' s = Some (raw_stagnant ms gen li store s)) \<and>
         (\<forall>s. s \<notin> set order \<longrightarrow> status' s = status s) \<and>
         map fst results' = map fst results @ order \<and>
         (\<forall>s. li' s = (if s \<in> set order \<and> refreshed li store s then Some gen else li s)) \<and>
         (\<forall>t. t \<notin> set order \<longrightarrow> store' t = store t) \<and>
         (\<forall>t. member_fitness (store' t) = member_fitness (store t))"
  using assms
proof (induction order arbitrary: li store status results)
  case Nil
  then show ?case by simp
next
  case (Cons s order)
  obtain li1 store1 status1 results1 where
    step: "examine_species ms gen s (li, store, status, results) = (li1, store1, status1, results1)"
    by (metis prod_cases4)
  note eff = examine_species_effect[OF step]
  from Cons.prems have d: "distinct order" and ns: "s \<notin> set order" by simp_all
  from Cons.prems(2) step
  have rest: "fold (examine_species ms gen) order (li1, store1, status1, results1) =
                (li', store', status', results')" by simp
  note ih = Cons.IH[OF d rest]
  have li1_other: "\<And>t. t \<noteq> s \<Longrightarrow> li1 t = li t" using eff(3) by auto
  have same: "raw_stagnant ms gen li1 store1 t = raw_stagnant ms gen li store t"
    "refreshed li1 store1 t = refreshed li store t" if "t \<in> set order" for t
  proof -
    from that ns have "t \<noteq> s" by auto
    then have "store1 t = store t" "li1 t = li t" using eff(4) li1_other by auto
    then show "raw_stagnant ms gen li1 store1 t = raw_stagnant ms gen li store t"
      "refreshed li1 store1 t = refreshed li store t"
      by (simp_all add: raw_stagnant_def refreshed_def split: option.splits)
  qed
  have li1_s: "li1 s = (if refreshed li store s then Some gen else li s)" using eff(3) by auto
  show ?case
  proof (intro conjI ballI allI impI)
    fix t assume "t \<in> set (s # order)"
    then show "status' t = Some (raw_stagnant ms gen li store t)"
      using ih same(1) eff(1) ns by (cases "t = s") auto
  next
    fix t assume "t \<notin> set (s # order)"
    then show "status' t = status t" using ih eff(1) by auto
  next
    show "map fst results' = map fst results @ s # order" using ih eff(2) by simp
  next
    fix t show "li' t = (if t \<in> set (s # order) \<and> refreshed li store t then Some gen else li t)"
      using ih same(2) li1_other li1_s ns by (cases "t = s") auto
  next
    fix t assume "t \<notin> set (s # order)"
    then show "store' t = store t" using ih eff(4) by auto
  next
    fix t show "member_fitness (store' t) = member_fitness (store t)" using ih eff(5) by simp
  qed
qed

lemma map_fst_insort_key:
  "map fst (insort_key (\<lambda>(x, y). k x) p ps) = insort_key k (fst p) (map fst ps)"
  by (induction ps) (auto split: prod.splits)

lemma map_fst_sort_key:
  "map fst (sort_key (\<lambda>(x, y). k x) ps) = sort_key k (map fst ps)"
  by (induction ps) (simp_all add: map_fst_insort_key)

lemma map_fst_sort_descending:
  "map fst (sort_descending (\<lambda>(x, y). k x) ps) = sort_descending k (map fst ps)"
  by (simp add: sort_descending_def rev_map map_fst_sort_key[symmetric])

lemma fold_protect:
  "fold (\<lambda>spec status. status(spec \<mapsto> False)) ps status s =
     (if s \<in> set ps then Some False else status s)"
  by (induction ps arbitrary: status) auto

text \<open>
  As long as the sorted list of the manager holds every species once, \<^verbatim>\<open>update\<close> returns for
  each species of the list its raw flag, unless the species is among the first
  \<^verbatim>\<open>elitism\<close> of the ranking by best member fitness.
\<close>

lemma update_without_duplicates:
  assumes upd: "update mgr store species_list generation = (mgr', store', status)"
    and dist: "distinct (map snd (sorted_species mgr'))"
  shows "\<forall>s \<in> set (map snd (sorted_species mgr')).
           status s =
             Some (raw_stagnant (max_stagnation mgr) generation (species_last_improved mgr) store s \<and>
                   s \<notin> set (take (nat (min (elitism mgr) (int (length (sorted_species mgr')))))
                               (sort_descending (best_member_fitness store)
                                  (map snd (sorted_species mgr')))))"
proof -
  define sl where "sl = fold (register_species store) species_list (sorted_species mgr)"
  obtain li st1 status1 results where
    ex: "fold (examine_species (max_stagnation mgr) generation) (map snd sl)
           (species_last_improved mgr, store, Map.empty, []) = (li, st1, status1, results)"
    by (metis prod_cases4)
  have mgr': "sorted_species mgr' = sl" and st: "store' = st1"
    and status: "status = fold (\<lambda>spec status. status(spec \<mapsto> False))
        (map fst (take (nat (min (elitism mgr) (int (length
             (sort_descending (\<lambda>(spec, flag). best_member_fitness st1 spec) results)))))
           (sort_descending (\<lambda>(spec, flag). best_member_fitness st1 spec) results))) status1"
    using upd ex by (auto simp: update_def Let_def sl_def[symmetric])
  from dist mgr' have d: "distinct (map snd sl)" by simp
  note ef = examine_fold[OF d ex]
  have keys: "best_member_fitness st1 = best_member_fitness store"
    using ef by (auto simp: best_member_fitness_def fun_eq_iff)
  have order: "map fst results = map snd sl" using ef by simp
  have ranked: "map fst (sort_descending (\<lambda>(spec, flag). best_member_fitness st1 spec) results) =
                  sort_descending (best_member_fitness store) (map snd sl)"
    by (simp add: map_fst_sort_descending keys order)
  have len: "length (sort_descending (\<lambda>(spec, flag). best_member_fitness st1 spec) results) = length sl"
    using arg_cong[OF order, of length] by (simp add: sort_descending_def)
  have prot: "map fst (take (nat (min (elitism mgr) (int (length
             (sort_descending (\<lambda>(spec, flag). best_member_fitness st1 spec) results)))))
           (sort_descending (\<lambda>(spec, flag). best_member_fitness st1 spec) results)) =
        take (nat (min (elitism mgr) (int (length sl))))
          (sort_descending (best_member_fitness store) (map snd sl))"
    by (simp only: len take_map[symmetric] ranked)
  show ?thesis
    unfolding mgr' status prot fold_protect using ef by auto
qed

text \<open>
  Claim C8, at a concrete run with \<^verbatim>\<open>max_stagnation = 15\<close> and \<^verbatim>\<open>elitism = 2\<close> and two species.
  At generation 0 both species are new, with best fitness 1. Then the best fitness of
  species 0 rises to 3. At generation 15 the first loop of \<^verbatim>\<open>update\<close> does not find species 0
  in the sorted list, because the list holds it under its old key 1, and adds it a second
  time. The ranking of the elitism step therefore holds species 0 twice, in its two top
  places, and species 1, the second of the two species, is not protected: it is
  returned as stagnant.
\<close>

theorem stagnation_elitism_example:
  "sorted_species manager_after_start = [(1, 0), (1, 1)] \<and>
   species_last_improved manager_after_start 0 = Some 0 \<and>
   species_last_improved manager_after_start 1 = Some 0 \<and>
   sorted_species (fst (update manager_after_start species_later [0, 1] 15)) = [(1, 0), (1, 1), (3, 0)] \<and>
   snd (snd (update manager_after_start species_later [0, 1] 15)) 0 = Some False \<and>
   snd (snd (update manager_after_start species_later [0, 1] 15)) 1 = Some True"
  by code_simp

end
